theory Spec2Isabelle
  imports Main "HOL-Library.Product_Lexorder"
begin

section \<open>Strings and decimal numerals\<close>

text \<open>
  Python strings are modelled as \<open>string\<close>, a list of characters with code points
  below 256. \<open>str(n)\<close> of an integer is its decimal numeral, with a leading minus sign
  for a negative one.
\<close>

definition digit_char :: "nat \<Rightarrow> char" where
  "digit_char d = ''0123456789'' ! d"

fun str_nat :: "nat \<Rightarrow> string" where
  "str_nat n = (if n < 10 then [digit_char n] else str_nat (n div 10) @ [digit_char (n mod 10)])"

declare str_nat.simps [simp del]

definition py_str_int :: "int \<Rightarrow> string" where
  "py_str_int i = (if i < 0 then CHR ''-'' # str_nat (nat (- i)) else str_nat (nat i))"

definition is_digit :: "char \<Rightarrow> bool" where
  "is_digit c = (let k = (of_char c :: nat) in 48 \<le> k \<and> k \<le> 57)"

definition digit_val :: "char \<Rightarrow> nat" where
  "digit_val c = (of_char c :: nat) - 48"

text \<open>\<open>int(s)\<close> on a string of decimal digits.\<close>

definition int_of_digits :: "string \<Rightarrow> nat" where
  "int_of_digits s = foldl (\<lambda>acc c. 10 * acc + digit_val c) 0 s"

text \<open>
  The characters \<open>str.strip()\<close> removes, that is those for which \<open>str.isspace()\<close> holds:
  below 256 these are the code points 9 to 13, 28 to 32, 133 (NEL) and 160 (NBSP).
\<close>

definition is_space :: "char \<Rightarrow> bool" where
  "is_space c =
     (let k = (of_char c :: nat)
      in (9 \<le> k \<and> k \<le> 13) \<or> (28 \<le> k \<and> k \<le> 32) \<or> k = 133 \<or> k = 160)"

definition strip :: "string \<Rightarrow> string" where
  "strip s = rev (dropWhile is_space (rev (dropWhile is_space s)))"

text \<open>\<open>f"{n:09d}"\<close> and friends: left-pad with zeros up to the width, never truncate.\<close>

definition zero_pad :: "nat \<Rightarrow> string \<Rightarrow> string" where
  "zero_pad w s = replicate (w - length s) CHR ''0'' @ s"

section \<open>Basket identifiers (utils.py)\<close>

datatype pyval = PyNone | PyInt int | PyStr string

datatype error =
    BasketIdRequired
  | BasketNumberRange
  | InvalidBasketFormat
  | MovePutBasketRequired
  | ShelfMissing int
  | DestinationConflict int string
  | ForeignKeyViolation int
  | DeviceWriteError
  | AttributeError
  | StoreUnavailable

definition py_str :: "pyval \<Rightarrow> string" where
  "py_str v = (case v of PyNone \<Rightarrow> ''None'' | PyInt i \<Rightarrow> py_str_int i | PyStr s \<Rightarrow> s)"

text \<open>
  The two regular expressions of utils.py, applied with \<open>re.match\<close> to a stripped
  string (so \<open>$\<close> can only match at the very end):
  \<open>_DIGITS = ^\d+$\<close> and \<open>_BASKET = ^[bB](\d{1,9})$\<close>, the latter returning its group.
\<close>

definition match_DIGITS :: "string \<Rightarrow> bool" where
  "match_DIGITS s = (s \<noteq> [] \<and> list_all is_digit s)"

definition match_BASKET :: "string \<Rightarrow> string option" where
  "match_BASKET s =
     (case s of
        [] \<Rightarrow> None
      | c # ds \<Rightarrow>
          if (c = CHR ''b'' \<or> c = CHR ''B'') \<and> 1 \<le> length ds \<and> length ds \<le> 9 \<and> list_all is_digit ds
          then Some ds else None)"

definition format_basket :: "nat \<Rightarrow> string" where
  "format_basket n = CHR ''B'' # zero_pad 9 (str_nat n)"

definition normalize_basket_id :: "pyval \<Rightarrow> error + string" where
  "normalize_basket_id v =
     (if v = PyNone then Inl BasketIdRequired
      else
        let s = strip (py_str v) in
        if match_DIGITS s then
          (let n = int_of_digits s in
           if \<not> (n \<le> 999999999) then Inl BasketNumberRange else Inr (format_basket n))
        else
          (case match_BASKET s of
             Some ds \<Rightarrow>
               (let n = int_of_digits ds in
                if \<not> (n \<le> 999999999) then Inl BasketNumberRange else Inr (format_basket n))
           | None \<Rightarrow> Inl InvalidBasketFormat))"

section \<open>The occupancy store (db.py)\<close>

text \<open>
  The PostgreSQL tables are lists of rows. \<open>UPDATE ... WHERE\<close> maps over the rows,
  \<open>SELECT ... fetchone()\<close> takes the first matching row, \<open>DELETE ... WHERE\<close>
  filters. \<open>NOW()\<close> is a parameter \<open>now\<close> of every operation that stamps a time.
\<close>

record shelf =
  shelf_id :: int
  x_column :: int
  y_row :: int
  z_depth :: int
  can_use :: "bool option"
  basket_id :: "string option"
  active :: bool
  lastupdate_time :: nat

text \<open>
  A row of \<open>queue_pick\<close> or \<open>queue_put\<close>. Its basket column is nullable:
  \<open>enqueue_pick\<close> and \<open>enqueue_put\<close> insert NULL for a basket that is \<open>None\<close> or empty,
  and the row then reads back with \<open>r["basket"] = None\<close>.
\<close>

record queue_row =
  q_id :: int
  q_basket :: "string option"
  q_x :: int
  q_y :: int
  q_z :: int
  q_created_at :: "int option"

record history_row =
  h_shelf_id :: int
  h_basket_id :: "string option"
  h_operation_type :: string
  h_status :: string
  h_timestamp :: nat

record database =
  shelf_data :: "shelf list"
  basket_data :: "(string \<times> int) list"
  queue_pick :: "queue_row list"
  queue_put :: "queue_row list"
  operation_history :: "history_row list"

datatype methode = PUT | PICK

type_synonym mapping = "int \<times> int \<times> int \<times> int"

text \<open>
  \<open>get_mapping_for_basket\<close>: the join of \<open>basket_data\<close> with \<open>shelf_data\<close> on the
  shelf id, restricted to the stripped basket id; the first row, or \<open>None\<close>.
\<close>

definition get_mapping_for_basket :: "database \<Rightarrow> string \<Rightarrow> mapping option" where
  "get_mapping_for_basket db b =
     (case [(shelf_id s, x_column s, y_row s, z_depth s).
              bs \<leftarrow> basket_data db, fst bs = strip b,
              s \<leftarrow> shelf_data db, shelf_id s = snd bs] of
        [] \<Rightarrow> None
      | r # _ \<Rightarrow> Some r)"

definition shelf_can_use :: "database \<Rightarrow> int \<Rightarrow> bool" where
  "shelf_can_use db sid =
     (case find (\<lambda>s. shelf_id s = sid) (shelf_data db) of
        None \<Rightarrow> False
      | Some s \<Rightarrow> (case can_use s of None \<Rightarrow> False | Some b \<Rightarrow> b))"

text \<open>
  \<open>ORDER BY created_at ASC LIMIT n\<close>: PostgreSQL sorts NULLs last; rows with equal
  timestamps keep their table order here (SQL leaves that order open).
\<close>

definition created_key :: "queue_row \<Rightarrow> nat \<times> int" where
  "created_key r = (case q_created_at r of None \<Rightarrow> (1, 0) | Some t \<Rightarrow> (0, t))"

definition next_command_window :: "database \<Rightarrow> nat \<Rightarrow> queue_row list \<times> queue_row list" where
  "next_command_window db limit_each =
     (take limit_each (sort_key created_key (queue_pick db)),
      take limit_each (sort_key created_key (queue_put db)))"

definition delete_queue_row :: "database \<Rightarrow> methode \<Rightarrow> int \<Rightarrow> database" where
  "delete_queue_row db m row_id =
     (if m = PICK
      then db\<lparr>queue_pick := filter (\<lambda>r. q_id r \<noteq> row_id) (queue_pick db)\<rparr>
      else db\<lparr>queue_put := filter (\<lambda>r. q_id r \<noteq> row_id) (queue_put db)\<rparr>)"

text \<open>The two row updates every occupancy statement is made of.\<close>

definition set_empty :: "nat \<Rightarrow> shelf \<Rightarrow> shelf" where
  "set_empty now s = s\<lparr>basket_id := None, active := False, lastupdate_time := now\<rparr>"

definition set_occupied :: "nat \<Rightarrow> string option \<Rightarrow> shelf \<Rightarrow> shelf" where
  "set_occupied now b s = s\<lparr>basket_id := b, active := True, lastupdate_time := now\<rparr>"

definition update_where :: "(shelf \<Rightarrow> bool) \<Rightarrow> (shelf \<Rightarrow> shelf) \<Rightarrow> database \<Rightarrow> database" where
  "update_where P f db = db\<lparr>shelf_data := map (\<lambda>s. if P s then f s else s) (shelf_data db)\<rparr>"

text \<open>
  \<open>INSERT INTO operation_history\<close>: the table's foreign key on \<open>shelf_id\<close> rejects a
  shelf that is not in \<open>shelf_data\<close>.
\<close>

definition insert_history :: "database \<Rightarrow> history_row \<Rightarrow> error + database" where
  "insert_history db h =
     (if find (\<lambda>s. shelf_id s = h_shelf_id h) (shelf_data db) = None
      then Inl (ForeignKeyViolation (h_shelf_id h))
      else Inr (db\<lparr>operation_history := operation_history db @ [h]\<rparr>))"

text \<open>
  \<open>mark_shelf_occupied\<close> and \<open>mark_shelf_empty\<close> run on an autocommit cursor: each
  statement is committed on its own, so a failing insert leaves the update in place.
  The first component of the result is the exception raised, if any.
\<close>

definition mark_shelf_occupied :: "database \<Rightarrow> nat \<Rightarrow> int \<Rightarrow> string option \<Rightarrow> error option \<times> database" where
  "mark_shelf_occupied db now sid b =
     (let bv = (case b of None \<Rightarrow> None | Some t \<Rightarrow> if t \<noteq> [] then Some (strip t) else None);
          db1 = update_where (\<lambda>s. shelf_id s = sid) (set_occupied now bv) db
      in case insert_history db1
                \<lparr>h_shelf_id = sid, h_basket_id = bv, h_operation_type = ''PUT'',
                 h_status = ''success'', h_timestamp = now\<rparr> of
           Inl e \<Rightarrow> (Some e, db1)
         | Inr db2 \<Rightarrow> (None, db2))"

definition mark_shelf_empty :: "database \<Rightarrow> nat \<Rightarrow> int \<Rightarrow> error option \<times> database" where
  "mark_shelf_empty db now sid =
     (let old_basket_id =
            (case find (\<lambda>s. shelf_id s = sid) (shelf_data db) of
               None \<Rightarrow> None | Some s \<Rightarrow> basket_id s);
          db1 = update_where (\<lambda>s. shelf_id s = sid) (set_empty now) db
      in if old_basket_id \<noteq> None \<and> old_basket_id \<noteq> Some []
         then (case insert_history db1
                      \<lparr>h_shelf_id = sid, h_basket_id = old_basket_id, h_operation_type = ''PICK'',
                       h_status = ''success'', h_timestamp = now\<rparr> of
                 Inl e \<Rightarrow> (Some e, db1)
               | Inr db2 \<Rightarrow> (None, db2))
         else (None, db1))"

text \<open>
  \<open>transaction\<close>: the body works on the connection's view of the data; an exception
  rolls everything back (the stored data stay as they were) and is re-raised, a normal
  exit commits.
\<close>

definition transaction :: "database \<Rightarrow> (database \<Rightarrow> error + 'a \<times> database) \<Rightarrow> (error + 'a) \<times> database" where
  "transaction db body =
     (case body db of
        Inl e \<Rightarrow> (Inl e, db)
      | Inr (r, db') \<Rightarrow> (Inr r, db'))"

definition mark_pick :: "database \<Rightarrow> nat \<Rightarrow> int \<Rightarrow> (error + unit) \<times> database" where
  "mark_pick db now sid =
     transaction db (\<lambda>d. Inr ((), update_where (\<lambda>s. shelf_id s = sid) (set_empty now) d))"

record put_info =
  cleared_from :: "int list"
  placed_to :: int

definition move_put_body :: "nat \<Rightarrow> int \<Rightarrow> string \<Rightarrow> bool \<Rightarrow> database \<Rightarrow> error + put_info \<times> database" where
  "move_put_body now sid bid allow_overwrite_dest d =
     (let cleared = map shelf_id (filter (\<lambda>s. basket_id s = Some bid) (shelf_data d));
          d1 = update_where (\<lambda>s. basket_id s = Some bid) (set_empty now) d
      in case find (\<lambda>s. shelf_id s = sid) (shelf_data d1) of
           None \<Rightarrow> Inl (ShelfMissing sid)
         | Some row \<Rightarrow>
             (let dest_has_other = (basket_id row \<noteq> None \<and> basket_id row \<noteq> Some bid) in
              if dest_has_other \<and> \<not> allow_overwrite_dest
              then Inl (DestinationConflict sid (the (basket_id row)))
              else
                let d2 = (if dest_has_other \<and> allow_overwrite_dest
                          then update_where (\<lambda>s. shelf_id s = sid) (set_empty now) d1 else d1);
                    d3 = update_where (\<lambda>s. shelf_id s = sid) (set_occupied now (Some bid)) d2
                in Inr (\<lparr>cleared_from = cleared, placed_to = sid\<rparr>, d3)))"

definition move_put :: "database \<Rightarrow> nat \<Rightarrow> int \<Rightarrow> string \<Rightarrow> bool \<Rightarrow> (error + put_info) \<times> database" where
  "move_put db now sid b allow_overwrite_dest =
     (if b = [] then (Inl MovePutBasketRequired, db)
      else case normalize_basket_id (PyStr b) of
             Inl e \<Rightarrow> (Inl e, db)
           | Inr bid \<Rightarrow> transaction db (move_put_body now sid bid allow_overwrite_dest))"

definition shelf_invariant :: "database \<Rightarrow> bool" where
  "shelf_invariant db = list_all (\<lambda>s. active s = (basket_id s \<noteq> None)) (shelf_data db)"

text \<open>The basket recorded on a shelf (\<open>get_basket_on_shelf\<close>).\<close>

definition get_basket_on_shelf :: "database \<Rightarrow> int \<Rightarrow> string option" where
  "get_basket_on_shelf db sid =
     (case find (\<lambda>s. shelf_id s = sid) (shelf_data db) of
        None \<Rightarrow> None
      | Some s \<Rightarrow> (case basket_id s of None \<Rightarrow> None | Some b \<Rightarrow> if b \<noteq> [] then Some b else None))"


text \<open>A shelf, found by its id, holds the basket and is marked active.\<close>

definition holds_basket :: "database \<Rightarrow> int \<Rightarrow> string \<Rightarrow> bool" where
  "holds_basket db sid a =
     (case find (\<lambda>s. shelf_id s = sid) (shelf_data db) of
        None \<Rightarrow> False
      | Some row \<Rightarrow> basket_id row = Some a \<and> active row)"

text \<open>A small store used to run the operations on: shelf 1 is empty, shelf 2 holds basket 6.\<close>

definition example_shelf :: "int \<Rightarrow> string option \<Rightarrow> shelf" where
  "example_shelf i b =
     \<lparr>shelf_id = i, x_column = 3, y_row = 12, z_depth = 0, can_use = Some True,
      basket_id = b, active = (b \<noteq> None), lastupdate_time = 0\<rparr>"

definition example_db :: database where
  "example_db =
     \<lparr>shelf_data = [example_shelf 1 None, example_shelf 2 (Some ''B000000006'')],
      basket_data = [(''B000000005'', 1), (''B000000006'', 1)],
      queue_pick = [], queue_put = [], operation_history = []\<rparr>"

section \<open>The job scheduler (asrs_mover.py, \<open>_select_next\<close>)\<close>

text \<open>
  Each of the three store calls of a scan sits in a handler of its own, so a call that
  raises is a branch of the scan. A call can fail for a reason outside the tables (the
  connection is refused); which calls of one scan do so is given by a record of faults,
  one answer per call, the call being named by the queue and the row it is made for.
\<close>

record scan_faults =
  lookup_raises :: "methode \<Rightarrow> queue_row \<Rightarrow> bool"
  delete_raises :: "methode \<Rightarrow> queue_row \<Rightarrow> bool"
  can_use_raises :: "methode \<Rightarrow> queue_row \<Rightarrow> bool"

definition no_faults :: scan_faults where
  "no_faults =
     \<lparr>lookup_raises = (\<lambda>m r. False), delete_raises = (\<lambda>m r. False),
      can_use_raises = (\<lambda>m r. False)\<rparr>"

text \<open>
  \<open>self.db.get_mapping_for_basket(r["basket"])\<close> as the scan sees it: the call raises
  when the store fails, and it raises \<open>AttributeError\<close> at \<open>basket_id.strip()\<close> when the
  basket of the row is \<open>None\<close>; otherwise it answers with the mapping or with \<open>None\<close>.
\<close>

definition lookup_mapping :: "scan_faults \<Rightarrow> database \<Rightarrow> methode \<Rightarrow> queue_row \<Rightarrow> error + mapping option" where
  "lookup_mapping f db m r =
     (if lookup_raises f m r then Inl StoreUnavailable
      else case q_basket r of
             None \<Rightarrow> Inl AttributeError
           | Some b \<Rightarrow> Inr (get_mapping_for_basket db b))"

text \<open>
  \<open>first_usable(jobs)\<close>: scan the rows in order. A row whose lookup raises is passed
  over. A row whose basket has no mapping is deleted from its queue, unless the delete
  raises, which is swallowed, and the scan goes on. A row whose mapped shelf cannot be
  used, or for which \<open>shelf_can_use\<close> raises, is passed over. The first row with a
  usable mapped shelf is returned with its mapping.
  The rows of one scan all carry the same \<open>methode\<close>, passed here as an argument.
\<close>

fun first_usable :: "scan_faults \<Rightarrow> database \<Rightarrow> methode \<Rightarrow> queue_row list \<Rightarrow> (queue_row \<times> mapping) option \<times> database" where
  "first_usable f db m [] = (None, db)"
| "first_usable f db m (r # rs) =
     (case lookup_mapping f db m r of
        Inl e \<Rightarrow> first_usable f db m rs
      | Inr None \<Rightarrow>
          first_usable f (if delete_raises f m r then db else delete_queue_row db m (q_id r)) m rs
      | Inr (Some mp) \<Rightarrow>
          if can_use_raises f m r then first_usable f db m rs
          else if shelf_can_use db (fst mp) then (Some (r, mp), db)
          else first_usable f db m rs)"

text \<open>
  \<open>p_job["created_at"] <= q_job["created_at"]\<close>: a comparison with a NULL timestamp
  raises \<open>TypeError\<close>, which \<open>_select_next\<close> catches and answers with the PICK job.
\<close>

definition created_le :: "queue_row \<Rightarrow> queue_row \<Rightarrow> bool option" where
  "created_le p q =
     (case (q_created_at p, q_created_at q) of
        (Some tp, Some tq) \<Rightarrow> Some (tp \<le> tq)
      | _ \<Rightarrow> None)"

definition select_next :: "scan_faults \<Rightarrow> database \<Rightarrow> nat \<Rightarrow> (methode \<times> queue_row \<times> mapping) option \<times> database" where
  "select_next f db window_each =
     (let (picks, puts) = next_command_window db window_each;
          (p, db1) = first_usable f db PICK picks;
          (q, db2) = first_usable f db1 PUT puts
      in case (p, q) of
           (Some (p_job, p_map), None) \<Rightarrow> (Some (PICK, p_job, p_map), db2)
         | (None, Some (q_job, q_map)) \<Rightarrow> (Some (PUT, q_job, q_map), db2)
         | (Some (p_job, p_map), Some (q_job, q_map)) \<Rightarrow>
             (case created_le p_job q_job of
                Some True \<Rightarrow> (Some (PICK, p_job, p_map), db2)
              | Some False \<Rightarrow> (Some (PUT, q_job, q_map), db2)
              | None \<Rightarrow> (Some (PICK, p_job, p_map), db2))
         | (None, None) \<Rightarrow> (None, db2))"

text \<open>The vocabulary of the scheduler's properties.\<close>

definition queue_table :: "methode \<Rightarrow> database \<Rightarrow> queue_row list" where
  "queue_table m db = (if m = PICK then queue_pick db else queue_put db)"

text \<open>
  The static mapping of a row's basket, a row without a basket having none; and the rows
  a scan can return: the lookup answers with a mapping and \<open>shelf_can_use\<close> answers yes.
\<close>

definition row_mapping :: "database \<Rightarrow> queue_row \<Rightarrow> mapping option" where
  "row_mapping db r =
     (case q_basket r of None \<Rightarrow> None | Some b \<Rightarrow> get_mapping_for_basket db b)"

definition eligible :: "scan_faults \<Rightarrow> methode \<Rightarrow> database \<Rightarrow> queue_row \<Rightarrow> bool" where
  "eligible f m db r =
     (case lookup_mapping f db m r of
        Inr (Some mp) \<Rightarrow> \<not> can_use_raises f m r \<and> shelf_can_use db (fst mp)
      | _ \<Rightarrow> False)"

definition window :: "methode \<Rightarrow> database \<Rightarrow> nat \<Rightarrow> queue_row list" where
  "window m db n =
     (if m = PICK then fst (next_command_window db n) else snd (next_command_window db n))"

text \<open>The rows a scan visits: those before the first eligible row (all of them if there is none).\<close>

definition passed_over :: "scan_faults \<Rightarrow> methode \<Rightarrow> database \<Rightarrow> queue_row list \<Rightarrow> queue_row list" where
  "passed_over f m db rs = takeWhile (\<lambda>r. \<not> eligible f m db r) rs"

text \<open>
  A row the scan deletes when it visits it: the lookup answers that the basket has no
  mapping, and the delete does not raise.
\<close>

definition deleted_by :: "scan_faults \<Rightarrow> methode \<Rightarrow> database \<Rightarrow> queue_row \<Rightarrow> bool" where
  "deleted_by f m db r = (lookup_mapping f db m r = Inr None \<and> \<not> delete_raises f m r)"

text \<open>
  \<open>k\<close> polls of the scheduler, one after the other, the \<open>i\<close>-th of them (from 0) under
  the faults \<open>fs i\<close>.
\<close>

fun polls :: "(nat \<Rightarrow> scan_faults) \<Rightarrow> nat \<Rightarrow> nat \<Rightarrow> database \<Rightarrow> database" where
  "polls fs 0 n db = db"
| "polls fs (Suc k) n db = snd (select_next (fs k) (polls fs k n db) n)"

text \<open>
  The ids a scan deletes, and the candidate of a queue (the first eligible row of its
  window).
\<close>

definition garbage_ids :: "scan_faults \<Rightarrow> methode \<Rightarrow> database \<Rightarrow> queue_row list \<Rightarrow> int set" where
  "garbage_ids f m db rs = q_id ` {x \<in> set (passed_over f m db rs). deleted_by f m db x}"

definition candidate :: "scan_faults \<Rightarrow> methode \<Rightarrow> database \<Rightarrow> nat \<Rightarrow> queue_row option" where
  "candidate f m db n = find (eligible f m db) (window m db n)"

text \<open>A store with three shelves (shelf 2 not usable) and queued jobs.\<close>

definition example_row :: "int \<Rightarrow> string \<Rightarrow> int \<Rightarrow> queue_row" where
  "example_row i b t =
     \<lparr>q_id = i, q_basket = Some b, q_x = 3, q_y = 12, q_z = 0, q_created_at = Some t\<rparr>"

definition example_queue_db :: database where
  "example_queue_db =
     \<lparr>shelf_data =
        [example_shelf 1 None,
         (example_shelf 2 None)\<lparr>can_use := Some False\<rparr>,
         example_shelf 3 None],
      basket_data = [(''B000000005'', 1), (''B000000006'', 2), (''B000000007'', 3)],
      queue_pick =
        [example_row 3 ''B000000005'' 5,
         example_row 1 ''B000000009'' 1,
         example_row 2 ''B000000006'' 2],
      queue_put = [example_row 1 ''B000000007'' 5],
      operation_history = []\<rparr>"

text \<open>
  The first eligible row of a whole queue in creation order, whatever its position,
  and a store whose pick queue holds twenty jobs for the unusable shelf 2, all older
  than its one job for the usable shelf 1.
\<close>

definition queue_candidate :: "scan_faults \<Rightarrow> methode \<Rightarrow> database \<Rightarrow> queue_row option" where
  "queue_candidate f m db = find (eligible f m db) (sort_key created_key (queue_table m db))"

definition example_long_db :: database where
  "example_long_db =
     example_queue_db
       \<lparr>queue_pick :=
          map (\<lambda>i. example_row i ''B000000006'' i)
            [1, 2, 3, 4, 5, 6, 7, 8, 9, 10, 11, 12, 13, 14, 15, 16, 17, 18, 19, 20]
          @ [example_row 21 ''B000000005'' 21],
        queue_put := [example_row 1 ''B000000007'' 100]\<rparr>"

text \<open>
  The store of \<open>example_queue_db\<close> with one more pick job, the oldest, whose basket
  is NULL; a run of polls without faults; and a scan in which the delete of pick row 1
  raises.
\<close>

definition null_row :: queue_row where
  "null_row = \<lparr>q_id = 4, q_basket = None, q_x = 3, q_y = 12, q_z = 0, q_created_at = Some 0\<rparr>"

definition example_null_db :: database where
  "example_null_db = example_queue_db\<lparr>queue_pick := null_row # queue_pick example_queue_db\<rparr>"

definition no_faults_ever :: "nat \<Rightarrow> scan_faults" where
  "no_faults_ever i = no_faults"

definition delete_fault :: scan_faults where
  "delete_fault = no_faults\<lparr>delete_raises := (\<lambda>m r. m = PICK \<and> q_id r = 1)\<rparr>"

section \<open>The command string (asrs_mover.py, \<open>_id4\<close>, \<open>_d2\<close>, \<open>loop\<close>)\<close>

text \<open>\<open>_id4(n) = ("0000" + str(n))[-4:]\<close> and \<open>_d2(n) = s if len(s) > 1 else "0" + s\<close>.\<close>

definition id4 :: "int \<Rightarrow> string" where
  "id4 n = (let s = ''0000'' @ py_str_int n in drop (length s - 4) s)"

definition d2 :: "int \<Rightarrow> string" where
  "d2 n = (let s = py_str_int n in if length s > 1 then s else ''0'' @ s)"

text \<open>
  The f-string of \<open>loop\<close>: \<open>iiii M XX YY Z bbbbbbbbbb\<close>. Its last field is
  \<open>row["basket"]\<close> as the f-string formats it, \<open>None\<close> giving the text \<open>None\<close>.
\<close>

definition basket_text :: "queue_row \<Rightarrow> string" where
  "basket_text row = (case q_basket row of None \<Rightarrow> ''None'' | Some b \<Rightarrow> b)"

definition cmd_str :: "int \<Rightarrow> methode \<Rightarrow> int \<Rightarrow> int \<Rightarrow> int \<Rightarrow> string \<Rightarrow> string" where
  "cmd_str current_id m x y z b =
     id4 current_id @ (if m = PUT then ''0'' else ''1'') @ d2 x @ d2 y @ py_str_int z @ b"

section \<open>The field device and the mover's state\<close>

text \<open>
  The PLC is reached through OPC UA nodes. What the link does is given from outside, as
  a \<open>device\<close>: for the \<open>k\<close>-th input/output operation of a run, what a read of a node
  returns (\<open>None\<close>: the read raises), whether a write goes through (\<open>False\<close>: the
  write raises), and how many milliseconds the operation takes. Time is a clock in
  milliseconds, advanced by every operation and every \<open>time.sleep\<close>.
\<close>

datatype node =
    N_cmd | N_send | N_ack | N_complete | N_complete_rpy
  | N_basket_qr | N_plc_req_qr | N_wms_recv_qr
  | N_plc_req_clear | N_wms_clear_reply
  | N_ready | N_auto | N_alarm | N_cx | N_cy

datatype val = VBool bool | VStr string

record device =
  dev_read :: "nat \<Rightarrow> node \<Rightarrow> bool option"
  dev_write_ok :: "nat \<Rightarrow> node \<Rightarrow> bool"
  dev_latency :: "nat \<Rightarrow> nat"

text \<open>
  The log keeps, in order, every write attempted on a node, every operation on
  \<open>_send_lock\<close> and every statement sent to the store by the command cycle.
\<close>

datatype event =
    Write node val
  | Acquire
  | TryAcquire bool
  | Release
  | DbDeleteQueueRow methode int
  | DbMovePut int string bool
  | DbMarkPick int

record cycle_info =
  c_kind :: methode
  c_basket :: string
  c_seconds :: nat
  c_success :: bool

record world =
  w_db :: database
  w_tick :: nat
  w_clock :: nat
  w_log :: "event list"
  w_send_lock :: bool
  w_pending_clear :: bool
  w_clear_nodes :: bool
  w_on_cycle_done :: bool
  w_published :: "cycle_info list"
  w_last_put :: "nat option"
  w_last_pick :: "nat option"

definition get_value :: "device \<Rightarrow> node \<Rightarrow> world \<Rightarrow> bool option \<times> world" where
  "get_value dev n w =
     (dev_read dev (w_tick w) n,
      w\<lparr>w_tick := Suc (w_tick w), w_clock := w_clock w + dev_latency dev (w_tick w)\<rparr>)"

definition set_value :: "device \<Rightarrow> node \<Rightarrow> val \<Rightarrow> world \<Rightarrow> bool \<times> world" where
  "set_value dev n v w =
     (dev_write_ok dev (w_tick w) n,
      w\<lparr>w_tick := Suc (w_tick w), w_clock := w_clock w + dev_latency dev (w_tick w),
        w_log := w_log w @ [Write n v]\<rparr>)"

definition sleep :: "nat \<Rightarrow> world \<Rightarrow> world" where
  "sleep ms w = w\<lparr>w_clock := w_clock w + ms\<rparr>"

definition emit :: "event \<Rightarrow> world \<Rightarrow> world" where
  "emit e w = w\<lparr>w_log := w_log w @ [e]\<rparr>"

text \<open>
  \<open>_pulse\<close>: set the node, sleep, and in \<open>finally\<close> reset it, swallowing a failure of
  the reset. The result says whether the call returned (\<open>False\<close>: the set raised).
\<close>

definition pulse :: "device \<Rightarrow> node \<Rightarrow> nat \<Rightarrow> world \<Rightarrow> bool \<times> world" where
  "pulse dev n width w =
     (let (ok, w1) = set_value dev n (VBool True) w;
          w2 = (if ok then sleep width w1 else w1);
          (_, w3) = set_value dev n (VBool False) w2
      in (ok, w3))"

text \<open>\<open>_wait\<close>: poll until the node reads \<open>want\<close> or the timeout has passed.\<close>

function wait_loop :: "device \<Rightarrow> node \<Rightarrow> bool \<Rightarrow> nat \<Rightarrow> world \<Rightarrow> bool \<times> world" where
  "wait_loop dev n want deadline w =
     (if w_clock w < deadline
      then (if fst (get_value dev n w) = Some want
            then (True, snd (get_value dev n w))
            else wait_loop dev n want deadline (sleep 20 (snd (get_value dev n w))))
      else (False, w))"
  by pat_completeness auto
termination
  by (relation "measure (\<lambda>(dev, n, want, deadline, w). deadline - w_clock w)")
    (auto simp: get_value_def sleep_def)

declare wait_loop.simps [simp del]

definition wait :: "device \<Rightarrow> node \<Rightarrow> bool \<Rightarrow> nat \<Rightarrow> world \<Rightarrow> bool \<times> world" where
  "wait dev n want timeout_ms w = wait_loop dev n want (w_clock w + timeout_ms) w"

definition system_ready :: "device \<Rightarrow> world \<Rightarrow> bool \<times> world" where
  "system_ready dev w =
     (case get_value dev N_ready w of
        (None, w1) \<Rightarrow> (False, w1)
      | (Some ready, w1) \<Rightarrow>
          (case get_value dev N_auto w1 of
             (None, w2) \<Rightarrow> (False, w2)
           | (Some auto, w2) \<Rightarrow>
               (case get_value dev N_alarm w2 of
                  (None, w3) \<Rightarrow> (False, w3)
                | (Some alarm, w3) \<Rightarrow> (ready \<and> auto \<and> \<not> alarm, w3))))"

text \<open>\<open>_clear_cmd_exact\<close>: four writes, each in its own \<open>try\<close>; it never raises.\<close>

definition clear_cmd_exact :: "device \<Rightarrow> world \<Rightarrow> world" where
  "clear_cmd_exact dev w =
     (let w1 = snd (set_value dev N_cmd (VStr []) w);
          w2 = sleep 20 w1;
          w3 = snd (set_value dev N_basket_qr (VStr []) w2);
          w4 = snd (set_value dev N_wms_recv_qr (VBool False) w3)
      in snd (set_value dev N_send (VBool False) w4))"

text \<open>
  \<open>_serve_qr_if_requested\<close>: an optional bounded wait for the request line (the same
  polling as \<open>_wait\<close> for \<open>True\<close>, its result unused), then the reply, every failure
  ending the exchange without an exception.
\<close>

definition serve_qr_if_requested :: "device \<Rightarrow> string \<Rightarrow> nat \<Rightarrow> world \<Rightarrow> world" where
  "serve_qr_if_requested dev b wait_timeout w =
     (let w0 = (if wait_timeout > 0 then snd (wait dev N_plc_req_qr True wait_timeout w) else w);
          (req, w1) = get_value dev N_plc_req_qr w0
      in if req = Some True
         then (let (ok1, w2) = set_value dev N_basket_qr (VStr b) w1
               in if ok1
                  then (let (ok2, w3) = pulse dev N_wms_recv_qr 60 (sleep 20 w2)
                        in if ok2 then snd (wait dev N_plc_req_qr False 2000 w3) else w3)
                  else w2)
         else w1)"

section \<open>The command cycle (asrs_mover.py, \<open>send_job_blocking\<close>)\<close>

text \<open>The clock never runs backwards; the completion wait below terminates by it.\<close>

lemma clock_get_value: "w_clock w \<le> w_clock (snd (get_value dev n w))"
  by (simp add: get_value_def)

lemma clock_set_value: "w_clock w \<le> w_clock (snd (set_value dev n v w))"
  by (simp add: set_value_def)

lemma clock_sleep: "w_clock (sleep ms w) = w_clock w + ms"
  by (simp add: sleep_def)

lemma clock_pulse: "w_clock w \<le> w_clock (snd (pulse dev n width w))"
  by (simp add: pulse_def set_value_def sleep_def Let_def split: prod.splits)

lemma clock_wait_loop: "w_clock w \<le> w_clock (snd (wait_loop dev n want deadline w))"
proof (induction dev n want deadline w rule: wait_loop.induct)
  case (1 dev n want deadline w)
  show ?case
  proof (cases "w_clock w < deadline \<and> fst (get_value dev n w) \<noteq> Some want")
    case True
    then have "w_clock (sleep 20 (snd (get_value dev n w)))
        \<le> w_clock (snd (wait_loop dev n want deadline (sleep 20 (snd (get_value dev n w)))))"
      using 1 by simp
    moreover have "w_clock w \<le> w_clock (sleep 20 (snd (get_value dev n w)))"
      using clock_get_value [of w dev n] by (simp add: clock_sleep)
    ultimately show ?thesis
      using True by (subst wait_loop.simps) simp
  next
    case False
    then show ?thesis
      using clock_get_value [of w dev n] by (subst wait_loop.simps) auto
  qed
qed

lemma clock_wait: "w_clock w \<le> w_clock (snd (wait dev n want t w))"
  by (simp add: wait_def clock_wait_loop)

lemma clock_system_ready: "w_clock w \<le> w_clock (snd (system_ready dev w))"
  by (simp add: system_ready_def get_value_def split: prod.splits option.splits)

lemma clock_serve_qr: "w_clock w \<le> w_clock (serve_qr_if_requested dev b t w)"
proof -
  define w0 where "w0 = (if t > 0 then snd (wait dev N_plc_req_qr True t w) else w)"
  define w1 where "w1 = snd (get_value dev N_plc_req_qr w0)"
  define w2 where "w2 = snd (set_value dev N_basket_qr (VStr b) w1)"
  define w3 where "w3 = snd (pulse dev N_wms_recv_qr 60 (sleep 20 w2))"
  define w4 where "w4 = snd (wait dev N_plc_req_qr False 2000 w3)"
  have "w_clock w \<le> w_clock w0"
    by (simp add: w0_def clock_wait)
  moreover have "w_clock w0 \<le> w_clock w1"
    unfolding w1_def by (rule clock_get_value)
  moreover have "w_clock w1 \<le> w_clock w2"
    unfolding w2_def by (rule clock_set_value)
  moreover have "w_clock w2 \<le> w_clock w3"
    unfolding w3_def using clock_pulse [of "sleep 20 w2" dev N_wms_recv_qr 60]
    by (simp add: clock_sleep)
  moreover have "w_clock w3 \<le> w_clock w4"
    unfolding w4_def by (rule clock_wait)
  moreover have "serve_qr_if_requested dev b t w \<in> {w1, w2, w3, w4}"
    by (simp add: serve_qr_if_requested_def Let_def case_prod_beta w0_def w1_def w2_def
        w3_def w4_def)
  ultimately show ?thesis
    by auto
qed

text \<open>The reaction to the completion line, and the QR request served while waiting.\<close>

definition on_complete :: "device \<Rightarrow> world \<Rightarrow> world" where
  "on_complete dev w =
     clear_cmd_exact dev (sleep 500 (snd (pulse dev N_complete_rpy 100 (sleep 1000 w))))"

definition qr_during_wait :: "device \<Rightarrow> string \<Rightarrow> world \<Rightarrow> world" where
  "qr_during_wait dev b w =
     (let (q, w1) = get_value dev N_plc_req_qr w
      in if q = Some True then serve_qr_if_requested dev b 0 w1 else w1)"

lemma clock_qr_during_wait: "w_clock w \<le> w_clock (qr_during_wait dev b w)"
  using clock_get_value [of w dev N_plc_req_qr]
    clock_serve_qr [of "snd (get_value dev N_plc_req_qr w)" dev b 0]
  by (auto simp: qr_during_wait_def split: prod.splits)

text \<open>
  The wait for completion: at most 120 s. The result is \<open>(done, system_not_ready_flag)\<close>;
  both only choose the message that is printed.
\<close>

function complete_loop :: "device \<Rightarrow> string \<Rightarrow> nat \<Rightarrow> bool \<Rightarrow> world \<Rightarrow> (bool \<times> bool) \<times> world" where
  "complete_loop dev b deadline flag w =
     (if w_clock w < deadline
      then (if fst (get_value dev N_complete w) = None
            then complete_loop dev b deadline flag (sleep 100 (snd (get_value dev N_complete w)))
            else if fst (get_value dev N_complete w) = Some True
            then ((True, flag), on_complete dev (snd (get_value dev N_complete w)))
            else (if fst (system_ready dev (qr_during_wait dev b (snd (get_value dev N_complete w))))
                  then complete_loop dev b deadline flag
                         (sleep 30 (snd (system_ready dev
                            (qr_during_wait dev b (snd (get_value dev N_complete w))))))
                  else complete_loop dev b deadline True
                         (sleep 500 (snd (system_ready dev
                            (qr_during_wait dev b (snd (get_value dev N_complete w))))))))
      else ((False, flag), w))"
  by pat_completeness auto
termination
proof (relation "measure (\<lambda>(dev, b, deadline, flag, w). deadline - w_clock w)", goal_cases)
  case 1
  show ?case by simp
next
  case (2 dev b deadline flag w)
  then show ?case
    using clock_get_value [of w dev N_complete] by (simp add: clock_sleep)
next
  case (3 dev b deadline flag w)
  then show ?case
    using clock_get_value [of w dev N_complete]
      clock_qr_during_wait [of "snd (get_value dev N_complete w)" dev b]
      clock_system_ready [of "qr_during_wait dev b (snd (get_value dev N_complete w))" dev]
    by (simp add: clock_sleep)
next
  case (4 dev b deadline flag w)
  then show ?case
    using clock_get_value [of w dev N_complete]
      clock_qr_during_wait [of "snd (get_value dev N_complete w)" dev b]
      clock_system_ready [of "qr_during_wait dev b (snd (get_value dev N_complete w))" dev]
    by (simp add: clock_sleep)
qed

declare complete_loop.simps [simp del]

text \<open>
  Clearing the state of the previous command: up to three attempts, each waiting for
  the ack and the complete line to read false, each failed attempt followed by a forced
  clear, a pulse on the completion reply and half a second of sleep (skipped when the
  pulse raises).
\<close>

fun clear_prior :: "device \<Rightarrow> nat \<Rightarrow> world \<Rightarrow> bool \<times> world" where
  "clear_prior dev 0 w = (False, w)"
| "clear_prior dev (Suc k) w =
     (let (ack_clear, w1) = wait dev N_ack False 2000 w;
          (complete_clear, w2) = wait dev N_complete False 2000 w1
      in if ack_clear \<and> complete_clear then (True, w2)
         else (let w3 = clear_cmd_exact dev w2;
                   (ok, w4) = pulse dev N_complete_rpy 50 w3
               in clear_prior dev k (if ok then sleep 500 w4 else w4)))"

definition acquire :: "world \<Rightarrow> world" where
  "acquire w = emit Acquire (w\<lparr>w_send_lock := True\<rparr>)"

definition release :: "world \<Rightarrow> world" where
  "release w = emit Release (w\<lparr>w_send_lock := False\<rparr>)"

text \<open>
  The cycle up to the acknowledgement. The result is \<open>Inr True\<close> when the ack line went
  true, \<open>Inr False\<close> when the cycle was given up with \<open>return False\<close>, and \<open>Inl e\<close> when
  an exception left the function. On the ack timeout the strobe is dropped by a write
  that is not inside a \<open>try\<close>.
\<close>

definition until_ack :: "device \<Rightarrow> string \<Rightarrow> world \<Rightarrow> (error + bool) \<times> world" where
  "until_ack dev cmd w =
     (let (rdy, w1) = system_ready dev w in
      if \<not> rdy then (Inr False, w1)
      else
        let (cleared, w2) = clear_prior dev 3 w1 in
        if \<not> cleared then (Inr False, w2)
        else
          let (ok1, w3) = set_value dev N_cmd (VStr cmd) w2 in
          if \<not> ok1 then (Inr False, snd (set_value dev N_send (VBool False) w3))
          else
            let (ok2, w4) = set_value dev N_send (VBool True) w3 in
            if \<not> ok2 then (Inr False, snd (set_value dev N_send (VBool False) w4))
            else
              let (acked, w5) = wait dev N_ack True 5000 w4 in
              if \<not> acked
              then (let (ok3, w6) = set_value dev N_send (VBool False) w5
                    in if ok3 then (Inr False, w6) else (Inl DeviceWriteError, w6))
              else (Inr True, w5))"

text \<open>The occupancy update made right after the ack; the result is \<open>job_success\<close>.\<close>

definition db_update :: "methode \<Rightarrow> int \<Rightarrow> string \<Rightarrow> world \<Rightarrow> bool \<times> world" where
  "db_update m sid b w =
     (if m = PUT
      then (let (r, d) = move_put (w_db w) (w_clock w) sid b False;
                ok = (case r of Inl e \<Rightarrow> False | Inr info \<Rightarrow> True)
            in (ok, emit (DbMovePut sid b ok) (w\<lparr>w_db := d\<rparr>)))
      else (let (r, d) = mark_pick (w_db w) (w_clock w) sid;
                ok = (case r of Inl e \<Rightarrow> False | Inr u \<Rightarrow> True)
            in (ok, emit (DbMarkPick sid) (w\<lparr>w_db := d\<rparr>))))"

definition cleanup :: "device \<Rightarrow> world \<Rightarrow> world" where
  "cleanup dev w =
     (let w1 = snd (pulse dev N_complete_rpy 50 w);
          w2 = clear_cmd_exact dev w1;
          w3 = snd (wait dev N_complete False 5000 w2);
          w4 = sleep 150 w3;
          w5 = snd (pulse dev N_complete_rpy 50 w4);
          w6 = snd (wait dev N_ack False 5000 w5)
      in snd (wait dev N_ready True 3000 w6))"

definition record_cycle :: "methode \<Rightarrow> string \<Rightarrow> nat \<Rightarrow> bool \<Rightarrow> world \<Rightarrow> world" where
  "record_cycle m b t_start job_success w =
     (let duration = w_clock w - t_start;
          w1 = (if m = PUT then w\<lparr>w_last_put := Some duration\<rparr>
                else w\<lparr>w_last_pick := Some duration\<rparr>)
      in if w_on_cycle_done w1
         then w1\<lparr>w_published := w_published w1 @
                [\<lparr>c_kind = m, c_basket = b, c_seconds = duration, c_success = job_success\<rparr>]\<rparr>
         else w1)"

text \<open>\<open>row.get("basket") or ""\<close>: the basket of the row, a NULL one giving the empty string.\<close>

definition basket_or_empty :: "queue_row \<Rightarrow> string" where
  "basket_or_empty row = (case q_basket row of None \<Rightarrow> [] | Some b \<Rightarrow> b)"

text \<open>
  The cycle from the acknowledgement on: delete the queue row, drop the strobe (a
  write outside any \<open>try\<close>), update the occupancy, serve a QR request, wait for
  completion, clean up, record and publish.
\<close>

definition after_ack :: "device \<Rightarrow> methode \<Rightarrow> queue_row \<Rightarrow> int \<Rightarrow> nat \<Rightarrow> world \<Rightarrow> (error + bool) \<times> world" where
  "after_ack dev m row sid t_start w =
     (let b = strip (basket_or_empty row);
          w1 = emit (DbDeleteQueueRow m (q_id row))
                 (w\<lparr>w_db := delete_queue_row (w_db w) m (q_id row)\<rparr>);
          (ok, w2) = set_value dev N_send (VBool False) w1
      in if \<not> ok then (Inl DeviceWriteError, w2)
         else
           let (job_success, w3) = db_update m sid b w2;
               w4 = serve_qr_if_requested dev b 500 w3;
               w5 = snd (complete_loop dev b (w_clock w4 + 120000) False w4);
               w6 = cleanup dev w5
           in (Inr job_success, record_cycle m b t_start job_success w6))"

text \<open>
  \<open>send_job_blocking\<close>: the whole cycle under \<open>with self._send_lock\<close>, which releases
  the lock on every way out, an exception included. The call is modelled from the
  moment it has the lock.
\<close>

definition send_job_blocking :: "device \<Rightarrow> string \<Rightarrow> methode \<Rightarrow> queue_row \<Rightarrow> int \<Rightarrow> world \<Rightarrow> (error + bool) \<times> world" where
  "send_job_blocking dev cmd m row sid w =
     (let t_start = w_clock w;
          (r, w1) = until_ack dev cmd (acquire w);
          (res, w2) = (if r = Inr True then after_ack dev m row sid t_start w1 else (r, w1))
      in (res, release w2))"

section \<open>The clear-request reactor (asrs_mover.py, \<open>_monitor_clear_request\<close>)\<close>

text \<open>
  \<open>self._send_lock.acquire(blocking=False)\<close>: the answer is whether the lock was free
  (the world records it as held by another context in \<open>w_send_lock\<close>).
\<close>

definition try_acquire :: "world \<Rightarrow> bool \<times> world" where
  "try_acquire w =
     (\<not> w_send_lock w,
      emit (TryAcquire (\<not> w_send_lock w)) (if w_send_lock w then w else w\<lparr>w_send_lock := True\<rparr>))"

text \<open>One iteration of the reactor's \<open>while\<close> loop.\<close>

definition monitor_clear_request :: "device \<Rightarrow> world \<Rightarrow> world" where
  "monitor_clear_request dev w =
     (if \<not> w_clear_nodes w then sleep 250 w
      else
        let (r, w1) = get_value dev N_plc_req_clear w in
        sleep 150
          (if r = Some True
           then (let w2 = snd (pulse dev N_wms_clear_reply 50 w1);
                     (acquired, w3) = try_acquire w2
                 in if acquired
                    then release ((clear_cmd_exact dev w3)\<lparr>w_pending_clear := False\<rparr>)
                    else w3\<lparr>w_pending_clear := True\<rparr>)
           else if w_pending_clear w1
           then (let (acquired, w3) = try_acquire w1
                 in if acquired
                    then release ((clear_cmd_exact dev w3)\<lparr>w_pending_clear := False\<rparr>)
                    else w3)
           else w1))"

section \<open>The mover's main loop (asrs_mover.py, \<open>loop\<close>)\<close>

text \<open>
  One iteration of \<open>loop\<close>, from a sequence number to the next. Reading the crane
  position only reads the two encoder nodes (the device says whether each read raises);
  the position itself is used by no command and is left out. The faults \<open>f\<close> are those
  of the scheduler's scan in this iteration.
\<close>

definition read_crane_position :: "device \<Rightarrow> world \<Rightarrow> world" where
  "read_crane_position dev w =
     (let (rx, w1) = get_value dev N_cx w
      in if rx = None then w1 else snd (get_value dev N_cy w1))"

definition loop_iteration :: "device \<Rightarrow> scan_faults \<Rightarrow> int \<Rightarrow> world \<Rightarrow> int \<times> world" where
  "loop_iteration dev f current_id w =
     (let w0 = read_crane_position dev w;
          (sel, d) = select_next f (w_db w0) 20;
          w1 = w0\<lparr>w_db := d\<rparr>
      in case sel of
           None \<Rightarrow> (current_id, sleep 100 w1)
         | Some (m, row, (sid, x, y, z)) \<Rightarrow>
             (let c = cmd_str current_id m x y z (basket_text row)
              in if length c \<noteq> 20 then (current_id, sleep 100 w1)
                 else (case send_job_blocking dev c m row sid w1 of
                         (Inr True, w2) \<Rightarrow> (current_id + 1, w2)
                       | (Inr False, w2) \<Rightarrow> (current_id, sleep 2000 w2)
                       | (Inl e, w2) \<Rightarrow> (current_id, sleep 200 w2))))"

section \<open>Example runs\<close>

text \<open>
  A world at rest over a given store, a link on which every operation succeeds and
  every line reads true, and a store whose only job is mapped to column 100.
\<close>

definition example_world :: "database \<Rightarrow> world" where
  "example_world d =
     \<lparr>w_db = d, w_tick = 0, w_clock = 0, w_log = [], w_send_lock = False,
      w_pending_clear = False, w_clear_nodes = True, w_on_cycle_done = True,
      w_published = [], w_last_put = None, w_last_pick = None\<rparr>"

definition example_device :: device where
  "example_device =
     \<lparr>dev_read = (\<lambda>k n. Some True), dev_write_ok = (\<lambda>k n. True), dev_latency = (\<lambda>k. 0)\<rparr>"

definition example_wide_db :: database where
  "example_wide_db =
     \<lparr>shelf_data = [(example_shelf 1 None)\<lparr>x_column := 100\<rparr>],
      basket_data = [(''B000000005'', 1)],
      queue_pick = [],
      queue_put = [example_row 1 ''B000000005'' 5],
      operation_history = []\<rparr>"

text \<open>
  The registers \<open>_clear_cmd_exact\<close> writes, and a check over a stretch of the log that
  every write to one of them happens while the lock is held (\<open>held\<close> at the start).
\<close>

definition command_register :: "node \<Rightarrow> bool" where
  "command_register n = (n = N_cmd \<or> n = N_send \<or> n = N_basket_qr \<or> n = N_wms_recv_qr)"

fun writes_under_lock :: "bool \<Rightarrow> event list \<Rightarrow> bool" where
  "writes_under_lock held [] = True"
| "writes_under_lock held (Write n v # es) =
     ((command_register n \<longrightarrow> held) \<and> writes_under_lock held es)"
| "writes_under_lock held (Acquire # es) = writes_under_lock True es"
| "writes_under_lock held (TryAcquire got # es) = writes_under_lock (held \<or> got) es"
| "writes_under_lock held (Release # es) = writes_under_lock False es"
| "writes_under_lock held (e # es) = writes_under_lock held es"

text \<open>The events a step added to the log.\<close>

definition new_events :: "world \<Rightarrow> world \<Rightarrow> event list" where
  "new_events w w' = drop (length (w_log w)) (w_log w')"

definition clear_writes :: "event list" where
  "clear_writes =
     [Write N_cmd (VStr []), Write N_basket_qr (VStr []),
      Write N_wms_recv_qr (VBool False), Write N_send (VBool False)]"

definition reply_pulse :: "event list" where
  "reply_pulse = [Write N_wms_clear_reply (VBool True), Write N_wms_clear_reply (VBool False)]"

text \<open>
  The world of a reactor poll after its read of the request line, and after the reply
  pulse that follows a request: the worlds in which the poll tries the lock.
\<close>

definition after_read :: "device \<Rightarrow> world \<Rightarrow> world" where
  "after_read dev w = snd (get_value dev N_plc_req_clear w)"

definition after_reply :: "device \<Rightarrow> world \<Rightarrow> world" where
  "after_reply dev w = snd (pulse dev N_wms_clear_reply 50 (after_read dev w))"

text \<open>A link on which every operation succeeds and every line reads false.\<close>

definition quiet_device :: device where
  "quiet_device =
     \<lparr>dev_read = (\<lambda>k n. Some False), dev_write_ok = (\<lambda>k n. True), dev_latency = (\<lambda>k. 0)\<rparr>"

text \<open>
  A store with one PUT job for basket 5, mapped to shelf 1, and two links for it. On
  both the system is ready, in auto mode and without alarm, and the ack and complete
  lines read false while the previous state is checked. On the first the ack line stays
  false and the poll of it takes five seconds, so that the ack wait times out; on the
  second the ack line reads true once the command is sent. On both, the ninth operation
  of the cycle, the write that drops the send strobe, fails.
\<close>

definition example_put_db :: database where
  "example_put_db =
     \<lparr>shelf_data = [example_shelf 1 None],
      basket_data = [(''B000000005'', 1)],
      queue_pick = [],
      queue_put = [example_row 1 ''B000000005'' 5],
      operation_history = []\<rparr>"

definition ack_timeout_device :: device where
  "ack_timeout_device =
     \<lparr>dev_read = (\<lambda>k n. Some (n = N_ready \<or> n = N_auto)),
      dev_write_ok = (\<lambda>k n. k \<noteq> 8),
      dev_latency = (\<lambda>k. if k = 7 then 5000 else 0)\<rparr>"

definition strobe_fail_device :: device where
  "strobe_fail_device =
     \<lparr>dev_read = (\<lambda>k n. Some (n = N_ready \<or> n = N_auto \<or> (n = N_ack \<and> 7 \<le> k))),
      dev_write_ok = (\<lambda>k n. k \<noteq> 8),
      dev_latency = (\<lambda>k. 0)\<rparr>"

text \<open>
  Steps that only talk to the device: the store, what was published and the recorded
  durations stay as they are, and the log grows by events that are not store statements.
\<close>

fun is_db_event :: "event \<Rightarrow> bool" where
  "is_db_event (DbDeleteQueueRow m i) = True"
| "is_db_event (DbMovePut sid b ok) = True"
| "is_db_event (DbMarkPick sid) = True"
| "is_db_event e = False"

definition device_only :: "world \<Rightarrow> world \<Rightarrow> bool" where
  "device_only w w' =
     (w_db w' = w_db w \<and> w_published w' = w_published w
      \<and> w_on_cycle_done w' = w_on_cycle_done w
      \<and> w_last_put w' = w_last_put w \<and> w_last_pick w' = w_last_pick w
      \<and> w_send_lock w' = w_send_lock w
      \<and> (\<exists>es. w_log w' = w_log w @ es \<and> list_all (\<lambda>e. \<not> is_db_event e) es))"

text \<open>The store statement of the occupancy update, as it is logged.\<close>

definition commit_event :: "methode \<Rightarrow> int \<Rightarrow> string \<Rightarrow> bool \<Rightarrow> event" where
  "commit_event m sid b ok = (if m = PUT then DbMovePut sid b ok else DbMarkPick sid)"

text \<open>The world right after the strobe is dropped, the queue row being deleted.\<close>

definition strobe_dropped :: "device \<Rightarrow> methode \<Rightarrow> queue_row \<Rightarrow> world \<Rightarrow> world" where
  "strobe_dropped dev m row w =
     snd (set_value dev N_send (VBool False)
            (emit (DbDeleteQueueRow m (q_id row))
               (w\<lparr>w_db := delete_queue_row (w_db w) m (q_id row)\<rparr>)))"

section \<open>Properties: decimal numerals and basket identifiers\<close>

lemma of_char_digit_char: "d < 10 \<Longrightarrow> (of_char (digit_char d) :: nat) = 48 + d"
proof -
  assume "d < 10"
  then have "d = 0 \<or> d = 1 \<or> d = 2 \<or> d = 3 \<or> d = 4 \<or> d = 5 \<or> d = 6 \<or> d = 7 \<or> d = 8 \<or> d = 9"
    by presburger
  then show ?thesis
    by (elim disjE) (simp_all add: digit_char_def)
qed

lemma is_digit_digit_char: "d < 10 \<Longrightarrow> is_digit (digit_char d)"
  by (simp add: is_digit_def of_char_digit_char)

lemma digit_val_digit_char: "d < 10 \<Longrightarrow> digit_val (digit_char d) = d"
  by (simp add: digit_val_def of_char_digit_char)

lemma is_digit_not_space: "is_digit c \<Longrightarrow> \<not> is_space c"
  by (auto simp: is_digit_def is_space_def Let_def)

lemma str_nat_nonempty: "str_nat n \<noteq> []"
  by (subst str_nat.simps) simp

lemma str_nat_digits: "list_all is_digit (str_nat n)"
proof (induction n rule: str_nat.induct)
  case (1 n)
  show ?case
  proof (cases "n < 10")
    case True
    then show ?thesis by (subst str_nat.simps) (simp add: is_digit_digit_char)
  next
    case False
    with 1 show ?thesis by (subst str_nat.simps) (simp add: is_digit_digit_char)
  qed
qed

lemma int_of_digits_snoc: "int_of_digits (s @ [c]) = 10 * int_of_digits s + digit_val c"
  by (simp add: int_of_digits_def)

lemma int_of_digits_str_nat: "int_of_digits (str_nat n) = n"
proof (induction n rule: str_nat.induct)
  case (1 n)
  show ?case
  proof (cases "n < 10")
    case True
    then show ?thesis
      by (subst str_nat.simps) (simp add: int_of_digits_def digit_val_digit_char)
  next
    case False
    with 1 have "int_of_digits (str_nat (n div 10)) = n div 10" by simp
    with False show ?thesis
      by (subst str_nat.simps) (simp add: int_of_digits_snoc digit_val_digit_char)
  qed
qed

lemma strip_no_space: "list_all (\<lambda>c. \<not> is_space c) s \<Longrightarrow> strip s = s"
proof -
  assume a: "list_all (\<lambda>c. \<not> is_space c) s"
  have "dropWhile is_space s = s"
    using a by (cases s) simp_all
  moreover have "dropWhile is_space (rev s) = rev s"
    using a by (cases "rev s") (auto simp: list_all_iff)
  ultimately show ?thesis by (simp add: strip_def)
qed

lemma strip_digits: "list_all is_digit s \<Longrightarrow> strip s = s"
  by (rule strip_no_space) (auto simp: list_all_iff is_digit_not_space)

lemma minus_not_space: "\<not> is_space CHR ''-''"
  by (simp add: is_space_def)

lemma strip_minus: "list_all is_digit s \<Longrightarrow> strip (CHR ''-'' # s) = CHR ''-'' # s"
  by (rule strip_no_space) (simp add: list_all_iff is_digit_not_space minus_not_space)

lemma normalize_int_big: "999999999 < n \<Longrightarrow> normalize_basket_id (PyInt n) = Inl BasketNumberRange"
  by (simp add: normalize_basket_id_def py_str_def py_str_int_def strip_digits str_nat_digits
      match_DIGITS_def str_nat_nonempty int_of_digits_str_nat Let_def)

lemma normalize_int_neg: "n < 0 \<Longrightarrow> normalize_basket_id (PyInt n) = Inl InvalidBasketFormat"
  by (simp add: normalize_basket_id_def py_str_def py_str_int_def strip_minus str_nat_digits
      match_DIGITS_def match_BASKET_def is_digit_def Let_def)

lemma format_basket_5: "format_basket 5 = ''B000000005''"
  by (simp add: format_basket_def zero_pad_def str_nat.simps digit_char_def eval_nat_numeral)

lemma normalize_str_5: "normalize_basket_id (PyStr ''5'') = Inr ''B000000005''"
  by (simp add: normalize_basket_id_def py_str_def format_basket_5 strip_def is_space_def
      match_DIGITS_def is_digit_def int_of_digits_def digit_val_def)

lemma normalize_str_B5: "normalize_basket_id (PyStr ''B000000005'') = Inr ''B000000005''"
  by (simp add: normalize_basket_id_def py_str_def format_basket_5 strip_def is_space_def
      match_DIGITS_def match_BASKET_def is_digit_def int_of_digits_def digit_val_def)

lemma normalize_int_5: "normalize_basket_id (PyInt 5) = Inr ''B000000005''"
  by (simp add: normalize_basket_id_def py_str_def py_str_int_def str_nat.simps digit_char_def
      format_basket_5 strip_def is_space_def match_DIGITS_def is_digit_def int_of_digits_def
      digit_val_def)

lemma normalize_str_range:
  "match_DIGITS (strip s) \<Longrightarrow> 999999999 < int_of_digits (strip s) \<Longrightarrow>
   normalize_basket_id (PyStr s) = Inl BasketNumberRange"
  by (simp add: normalize_basket_id_def py_str_def Let_def)

lemma normalize_str_format:
  "\<not> match_DIGITS (strip s) \<Longrightarrow> match_BASKET (strip s) = None \<Longrightarrow>
   normalize_basket_id (PyStr s) = Inl InvalidBasketFormat"
  by (simp add: normalize_basket_id_def py_str_def Let_def)

text \<open>
  Claim C10, as the code has it. Normalization maps \<open>"5"\<close>, \<open>"B000000005"\<close> and the
  integer \<open>5\<close> to \<open>"B000000005"\<close>. It raises for an integer outside \<open>[0, 999999999]\<close>
  and for \<open>None\<close>. For a string the format is judged after \<open>strip()\<close> has removed the
  surrounding whitespace: a stripped all-digits string whose value exceeds \<open>999999999\<close>
  raises the range error, and a stripped string that is neither all digits nor
  \<open>B\<close>/\<open>b\<close> followed by one to nine digits raises the format error.
\<close>

theorem normalize_basket_id_spec:
  "normalize_basket_id (PyStr ''5'') = Inr ''B000000005''
   \<and> normalize_basket_id (PyStr ''B000000005'') = Inr ''B000000005''
   \<and> normalize_basket_id (PyInt 5) = Inr ''B000000005''
   \<and> normalize_basket_id PyNone = Inl BasketIdRequired
   \<and> (\<forall>n. n < 0 \<longrightarrow> normalize_basket_id (PyInt n) = Inl InvalidBasketFormat)
   \<and> (\<forall>n. 999999999 < n \<longrightarrow> normalize_basket_id (PyInt n) = Inl BasketNumberRange)
   \<and> (\<forall>s. match_DIGITS (strip s) \<and> 999999999 < int_of_digits (strip s) \<longrightarrow>
          normalize_basket_id (PyStr s) = Inl BasketNumberRange)
   \<and> (\<forall>s. \<not> match_DIGITS (strip s) \<and> match_BASKET (strip s) = None \<longrightarrow>
          normalize_basket_id (PyStr s) = Inl InvalidBasketFormat)"
  using normalize_str_5 normalize_str_B5 normalize_int_5 normalize_int_neg normalize_int_big
    normalize_str_range normalize_str_format
  by (simp add: normalize_basket_id_def)

theorem normalize_basket_id_spec_witness:
  "normalize_basket_id (PyInt (- 5)) = Inl InvalidBasketFormat
   \<and> normalize_basket_id (PyInt 1000000000) = Inl BasketNumberRange
   \<and> normalize_basket_id (PyStr ''1000000000'') = Inl BasketNumberRange
   \<and> normalize_basket_id (PyStr ''B12x'') = Inl InvalidBasketFormat"
proof -
  have d: "match_DIGITS (strip ''1000000000'') \<and> 999999999 < int_of_digits (strip ''1000000000'')"
    by (simp add: strip_def is_space_def match_DIGITS_def is_digit_def int_of_digits_def
        digit_val_def)
  have f: "\<not> match_DIGITS (strip ''B12x'') \<and> match_BASKET (strip ''B12x'') = None"
    by (simp add: strip_def is_space_def match_DIGITS_def match_BASKET_def is_digit_def)
  from normalize_basket_id_spec d f show ?thesis
    by simp
qed

text \<open>
  The claim as written judges the format of the input itself. The string \<open>" 5"\<close> is
  neither all digits nor \<open>B\<close> followed by digits, and its normalization succeeds; so
  does that of \<open>"5"\<close> behind a no-break space (code point 160).
\<close>

theorem normalize_basket_id_padded_counterexample:
  "\<not> match_DIGITS '' 5'' \<and> match_BASKET '' 5'' = None
   \<and> normalize_basket_id (PyStr '' 5'') = Inr ''B000000005''
   \<and> \<not> match_DIGITS [CHR 0xA0, CHR ''5''] \<and> match_BASKET [CHR 0xA0, CHR ''5''] = None
   \<and> normalize_basket_id (PyStr [CHR 0xA0, CHR ''5'']) = Inr ''B000000005''"
  by (simp add: normalize_basket_id_def py_str_def format_basket_5 strip_def is_space_def
      match_DIGITS_def match_BASKET_def is_digit_def int_of_digits_def digit_val_def)

section \<open>Properties: the occupancy store\<close>

lemma find_update_where:
  assumes "\<And>s. shelf_id (f s) = shelf_id s"
  shows "find (\<lambda>s. shelf_id s = sid) (map (\<lambda>s. if P s then f s else s) xs)
       = map_option (\<lambda>s. if P s then f s else s) (find (\<lambda>s. shelf_id s = sid) xs)"
  by (induction xs) (simp_all add: assms)

lemma shelf_id_set_empty: "shelf_id (set_empty now s) = shelf_id s"
  by (simp add: set_empty_def)

lemma shelf_id_set_occupied: "shelf_id (set_occupied now b s) = shelf_id s"
  by (simp add: set_occupied_def)

lemma inv_update_empty:
  "shelf_invariant db \<Longrightarrow> shelf_invariant (update_where P (set_empty now) db)"
  by (auto simp: shelf_invariant_def update_where_def set_empty_def list_all_iff)

lemma inv_update_occupied:
  "shelf_invariant db \<Longrightarrow> shelf_invariant (update_where P (set_occupied now (Some b)) db)"
  by (auto simp: shelf_invariant_def update_where_def set_occupied_def list_all_iff)

lemma inv_history: "shelf_invariant (db\<lparr>operation_history := h\<rparr>) = shelf_invariant db"
  by (simp add: shelf_invariant_def)

lemma inv_insert_history:
  "insert_history db h = Inr db' \<Longrightarrow> shelf_invariant db' = shelf_invariant db"
  by (auto simp: insert_history_def inv_history split: if_splits)

lemma move_put_body_inv:
  "shelf_invariant d \<Longrightarrow> move_put_body now sid bid ov d = Inr (r, d') \<Longrightarrow> shelf_invariant d'"
  by (auto simp: move_put_body_def Let_def inv_update_empty inv_update_occupied
      split: option.splits if_splits)

lemma move_put_inv: "shelf_invariant db \<Longrightarrow> shelf_invariant (snd (move_put db now sid b ov))"
  by (auto simp: move_put_def transaction_def move_put_body_inv split: sum.splits)

lemma mark_pick_inv: "shelf_invariant db \<Longrightarrow> shelf_invariant (snd (mark_pick db now sid))"
  by (simp add: mark_pick_def transaction_def inv_update_empty)

lemma mark_shelf_empty_inv:
  "shelf_invariant db \<Longrightarrow> shelf_invariant (snd (mark_shelf_empty db now sid))"
  by (auto simp: mark_shelf_empty_def Let_def inv_update_empty inv_insert_history split: sum.splits)

lemma mark_shelf_occupied_inv:
  "shelf_invariant db \<Longrightarrow> t \<noteq> [] \<Longrightarrow> shelf_invariant (snd (mark_shelf_occupied db now sid (Some t)))"
  by (auto simp: mark_shelf_occupied_def Let_def inv_update_occupied inv_insert_history split: sum.splits)

lemma find_Some_shelf_id: "find (\<lambda>s. shelf_id s = sid) xs = Some row \<Longrightarrow> shelf_id row = sid"
  by (auto simp: find_Some_iff)

lemma normalize_nonempty: "normalize_basket_id (PyStr b) = Inr a \<Longrightarrow> b \<noteq> []"
  by (auto simp: normalize_basket_id_def py_str_def strip_def match_DIGITS_def match_BASKET_def)

lemma find_update_where_db:
  assumes "\<And>s. shelf_id (f s) = shelf_id s"
  shows "find (\<lambda>s. shelf_id s = sid) (shelf_data (update_where P f db))
       = map_option (\<lambda>s. if P s then f s else s) (find (\<lambda>s. shelf_id s = sid) (shelf_data db))"
  by (simp add: update_where_def find_update_where assms)

lemma find_set_empty_db:
  "find (\<lambda>s. shelf_id s = sid) (shelf_data (update_where P (set_empty now) db))
   = map_option (\<lambda>s. if P s then set_empty now s else s) (find (\<lambda>s. shelf_id s = sid) (shelf_data db))"
  by (rule find_update_where_db) (rule shelf_id_set_empty)

lemma holds_after_occupy:
  assumes "find (\<lambda>s. shelf_id s = sid) (shelf_data d) = Some row"
  shows "holds_basket (update_where (\<lambda>s. shelf_id s = sid) (set_occupied now (Some a)) d) sid a"
proof -
  have "shelf_id row = sid" using assms by (rule find_Some_shelf_id)
  then show ?thesis
    using assms
    by (simp add: holds_basket_def find_update_where_db shelf_id_set_occupied set_occupied_def)
qed

lemma move_put_body_places:
  assumes "move_put_body now sid a ov d = Inr (r, d')"
  shows "holds_basket d' sid a"
proof -
  let ?d1 = "update_where (\<lambda>s. basket_id s = Some a) (set_empty now) d"
  obtain row where row: "find (\<lambda>s. shelf_id s = sid) (shelf_data ?d1) = Some row"
    using assms by (auto simp: move_put_body_def Let_def split: option.splits)
  let ?other = "basket_id row \<noteq> None \<and> basket_id row \<noteq> Some a"
  let ?d2 = "if ?other \<and> ov then update_where (\<lambda>s. shelf_id s = sid) (set_empty now) ?d1 else ?d1"
  have d': "d' = update_where (\<lambda>s. shelf_id s = sid) (set_occupied now (Some a)) ?d2"
    using assms row by (auto simp: move_put_body_def Let_def split: if_splits)
  have "\<exists>row2. find (\<lambda>s. shelf_id s = sid) (shelf_data ?d2) = Some row2"
    using row by (auto simp: find_set_empty_db)
  then show ?thesis
    unfolding d' by (auto intro: holds_after_occupy)
qed

lemma move_put_body_conflict:
  assumes "holds_basket d sid a" and "a \<noteq> b"
  shows "move_put_body now sid b False d = Inl (DestinationConflict sid a)"
proof -
  obtain row where row: "find (\<lambda>s. shelf_id s = sid) (shelf_data d) = Some row"
    and b: "basket_id row = Some a"
    using assms(1) by (auto simp: holds_basket_def split: option.splits)
  have "find (\<lambda>s. shelf_id s = sid)
          (shelf_data (update_where (\<lambda>s. basket_id s = Some b) (set_empty now) d)) = Some row"
    using row b assms(2) by (simp add: find_set_empty_db)
  then show ?thesis
    using b assms(2) by (simp add: move_put_body_def Let_def)
qed

lemma move_put_body_again:
  assumes "holds_basket d sid a"
  shows "\<exists>r d'. move_put_body now sid a False d = Inr (r, d')"
proof -
  obtain row where row: "find (\<lambda>s. shelf_id s = sid) (shelf_data d) = Some row"
    and b: "basket_id row = Some a"
    using assms(1) by (auto simp: holds_basket_def split: option.splits)
  have "find (\<lambda>s. shelf_id s = sid)
          (shelf_data (update_where (\<lambda>s. basket_id s = Some a) (set_empty now) d))
        = Some (set_empty now row)"
    using row b by (simp add: find_set_empty_db)
  then show ?thesis
    by (simp add: move_put_body_def Let_def set_empty_def)
qed

lemma move_put_success:
  assumes "move_put db now sid b ov = (Inr info, db1)"
  shows "\<exists>a. normalize_basket_id (PyStr b) = Inr a \<and> holds_basket db1 sid a"
  using assms
  by (auto simp: move_put_def transaction_def move_put_body_places split: if_splits sum.splits)

lemma move_put_conflict_gen:
  assumes "holds_basket db sid a" and "normalize_basket_id (PyStr b) = Inr b'" and "a \<noteq> b'"
  shows "move_put db now sid b False = (Inl (DestinationConflict sid a), db)"
  using assms normalize_nonempty [OF assms(2)]
  by (simp add: move_put_def transaction_def move_put_body_conflict)

lemma move_put_again_gen:
  assumes "holds_basket db sid a" and "normalize_basket_id (PyStr b) = Inr a"
  shows "\<exists>info db'. move_put db now sid b False = (Inr info, db') \<and> holds_basket db' sid a"
proof -
  obtain r d' where r: "move_put_body now sid a False db = Inr (r, d')"
    using move_put_body_again [OF assms(1)] by blast
  then have "holds_basket d' sid a" by (rule move_put_body_places)
  with r assms(2) normalize_nonempty [OF assms(2)] show ?thesis
    by (simp add: move_put_def transaction_def)
qed

lemma format_basket_6: "format_basket 6 = ''B000000006''"
  by (simp add: format_basket_def zero_pad_def str_nat.simps digit_char_def eval_nat_numeral)

lemma normalize_str_6: "normalize_basket_id (PyStr ''6'') = Inr ''B000000006''"
  by (simp add: normalize_basket_id_def py_str_def format_basket_6 strip_def is_space_def
      match_DIGITS_def is_digit_def int_of_digits_def digit_val_def)

lemma example_put_5:
  "move_put example_db 7 1 ''5'' False =
     (Inr \<lparr>cleared_from = [], placed_to = 1\<rparr>,
      example_db\<lparr>shelf_data :=
        [set_occupied 7 (Some ''B000000005'') (example_shelf 1 None),
         example_shelf 2 (Some ''B000000006'')]\<rparr>)"
  by (simp add: move_put_def normalize_str_5 transaction_def move_put_body_def update_where_def
      example_db_def example_shelf_def set_occupied_def set_empty_def)

lemma example_invariant: "shelf_invariant example_db"
  by (simp add: shelf_invariant_def example_db_def example_shelf_def)

text \<open>
  Claim C4. Once \<open>move_put(shelf, A)\<close> has succeeded, \<open>move_put(shelf, B)\<close> without
  overwrite, for a basket \<open>B\<close> whose normalized id differs from that of \<open>A\<close>, raises the
  conflict error, and the store is exactly what it was before the call: the shelf still
  holds \<open>A\<close>, and the clearing of the shelves that held \<open>B\<close> is rolled back with the rest.
\<close>

theorem move_put_conflict_rolls_back:
  assumes "move_put db t1 sid A ov = (Inr info, db1)"
    and "normalize_basket_id (PyStr A) = Inr a"
    and "normalize_basket_id (PyStr B) = Inr b"
    and "a \<noteq> b"
  shows "move_put db1 t2 sid B False = (Inl (DestinationConflict sid a), db1)
         \<and> holds_basket db1 sid a"
proof -
  from move_put_success [OF assms(1)] assms(2) have h: "holds_basket db1 sid a"
    by auto
  from move_put_conflict_gen [OF h assms(3) assms(4)] h show ?thesis
    by simp
qed

theorem move_put_conflict_rolls_back_witness:
  "move_put (snd (move_put example_db 7 1 ''5'' False)) 9 1 ''6'' False
     = (Inl (DestinationConflict 1 ''B000000005''), snd (move_put example_db 7 1 ''5'' False))
   \<and> holds_basket (snd (move_put example_db 7 1 ''5'' False)) 1 ''B000000005''
   \<and> holds_basket (snd (move_put example_db 7 1 ''5'' False)) 2 ''B000000006''"
proof -
  have neq: "''B000000005'' \<noteq> ''B000000006''" by simp
  have e: "snd (move_put example_db 7 1 ''5'' False) =
      example_db\<lparr>shelf_data :=
        [set_occupied 7 (Some ''B000000005'') (example_shelf 1 None),
         example_shelf 2 (Some ''B000000006'')]\<rparr>"
    by (simp add: example_put_5)
  have "holds_basket (snd (move_put example_db 7 1 ''5'' False)) 2 ''B000000006''"
    unfolding e
    by (simp add: holds_basket_def example_db_def example_shelf_def set_occupied_def)
  with move_put_conflict_rolls_back [OF example_put_5 normalize_str_5 normalize_str_6 neq, of 9]
  show ?thesis
    by (simp add: example_put_5)
qed

text \<open>
  Claim C9. If \<open>move_put(shelf, basket)\<close> without overwrite succeeds, the same call made
  again succeeds too, places to the same shelf, and leaves the shelf holding the basket.
\<close>

theorem move_put_idempotent:
  assumes "move_put db t1 sid b False = (Inr info, db1)"
  shows "\<exists>info2 db2 a. move_put db1 t2 sid b False = (Inr info2, db2)
           \<and> normalize_basket_id (PyStr b) = Inr a \<and> holds_basket db2 sid a"
proof -
  from move_put_success [OF assms] obtain a
    where a: "normalize_basket_id (PyStr b) = Inr a" and h: "holds_basket db1 sid a"
    by blast
  from move_put_again_gen [OF h a] a show ?thesis
    by blast
qed

theorem move_put_idempotent_witness:
  "\<exists>info2 db2 a. move_put (snd (move_put example_db 7 1 ''5'' False)) 9 1 ''5'' False
       = (Inr info2, db2)
     \<and> normalize_basket_id (PyStr ''5'') = Inr a \<and> holds_basket db2 1 a"
  using move_put_idempotent [OF example_put_5, of 9]
  by (simp add: example_put_5)

text \<open>
  Claim C8, as the code has it. The invariant \<open>active = (basket_id \<noteq> NULL)\<close> on every
  shelf is preserved by \<open>move_put\<close>, \<open>mark_pick\<close> and \<open>mark_shelf_empty\<close> for all their
  arguments, whether they succeed or raise, and by \<open>mark_shelf_occupied\<close> when it is
  given a non-empty basket id.
\<close>

theorem shelf_invariant_preserved:
  assumes "shelf_invariant db"
  shows "shelf_invariant (snd (move_put db now sid b ov))
       \<and> shelf_invariant (snd (mark_pick db now sid))
       \<and> shelf_invariant (snd (mark_shelf_empty db now sid))
       \<and> (b \<noteq> [] \<longrightarrow> shelf_invariant (snd (mark_shelf_occupied db now sid (Some b))))"
  using assms
  by (simp add: move_put_inv mark_pick_inv mark_shelf_empty_inv mark_shelf_occupied_inv)

theorem shelf_invariant_preserved_witness:
  "shelf_invariant example_db
   \<and> shelf_invariant (snd (move_put example_db 7 1 ''5'' True))
   \<and> shelf_invariant (snd (mark_pick example_db 7 1))
   \<and> shelf_invariant (snd (mark_shelf_empty example_db 7 1))
   \<and> shelf_invariant (snd (mark_shelf_occupied example_db 7 1 (Some ''5'')))"
  using shelf_invariant_preserved [OF example_invariant, of 7 1 "''5''" True] example_invariant
  by simp

text \<open>
  \<open>mark_shelf_occupied\<close> accepts a missing basket id (\<open>None\<close> or the empty string): it
  then stores \<open>NULL\<close> as the basket and still sets \<open>active\<close>, which breaks the invariant.
\<close>

theorem mark_shelf_occupied_counterexample:
  "shelf_invariant example_db
   \<and> \<not> shelf_invariant (snd (mark_shelf_occupied example_db 7 1 None))
   \<and> \<not> shelf_invariant (snd (mark_shelf_occupied example_db 7 1 (Some [])))"
  by (simp add: shelf_invariant_def mark_shelf_occupied_def insert_history_def update_where_def
      set_occupied_def example_db_def example_shelf_def)

section \<open>Properties: the job scheduler\<close>

lemma static_delete [simp]:
  "shelf_data (delete_queue_row db m i) = shelf_data db"
  "basket_data (delete_queue_row db m i) = basket_data db"
  by (simp_all add: delete_queue_row_def)

lemma get_mapping_static:
  assumes "shelf_data d' = shelf_data d" and "basket_data d' = basket_data d"
  shows "get_mapping_for_basket d' b = get_mapping_for_basket d b"
  unfolding get_mapping_for_basket_def assms by (rule refl)

lemma shelf_can_use_static:
  assumes "shelf_data d' = shelf_data d"
  shows "shelf_can_use d' sid = shelf_can_use d sid"
  unfolding shelf_can_use_def assms by (rule refl)

lemma row_mapping_static:
  assumes "shelf_data d' = shelf_data d" and "basket_data d' = basket_data d"
  shows "row_mapping d' = row_mapping d"
  unfolding row_mapping_def get_mapping_static [OF assms] by (rule refl)

lemma lookup_mapping_static:
  assumes "shelf_data d' = shelf_data d" and "basket_data d' = basket_data d"
  shows "lookup_mapping f d' = lookup_mapping f d"
  unfolding lookup_mapping_def get_mapping_static [OF assms] by (rule refl)

lemma eligible_static:
  assumes "shelf_data d' = shelf_data d" and "basket_data d' = basket_data d"
  shows "eligible f m d' = eligible f m d"
  unfolding eligible_def lookup_mapping_static [OF assms] shelf_can_use_static [OF assms(1)]
  by (rule refl)

lemma deleted_by_static:
  assumes "shelf_data d' = shelf_data d" and "basket_data d' = basket_data d"
  shows "deleted_by f m d' = deleted_by f m d"
  unfolding deleted_by_def lookup_mapping_static [OF assms] by (rule refl)

lemma passed_over_static:
  assumes "shelf_data d' = shelf_data d" and "basket_data d' = basket_data d"
  shows "passed_over f m d' = passed_over f m d"
  unfolding passed_over_def eligible_static [OF assms] by (rule refl)

lemma garbage_ids_static:
  assumes "shelf_data d' = shelf_data d" and "basket_data d' = basket_data d"
  shows "garbage_ids f m d' rs = garbage_ids f m d rs"
  unfolding garbage_ids_def passed_over_static [OF assms] deleted_by_static [OF assms]
  by (rule refl)

lemma row_mapping_delete [simp]: "row_mapping (delete_queue_row db m i) = row_mapping db"
  by (rule row_mapping_static) simp_all

lemma eligible_delete [simp]: "eligible f m' (delete_queue_row db m i) = eligible f m' db"
  by (rule eligible_static) simp_all

lemma deleted_by_delete [simp]: "deleted_by f m' (delete_queue_row db m i) = deleted_by f m' db"
  by (rule deleted_by_static) simp_all

lemma garbage_ids_delete [simp]:
  "garbage_ids f m' (delete_queue_row db m i) rs = garbage_ids f m' db rs"
  by (rule garbage_ids_static) simp_all

lemma queue_table_delete_same:
  "queue_table m (delete_queue_row db m i) = filter (\<lambda>r. q_id r \<noteq> i) (queue_table m db)"
  by (cases m) (simp_all add: queue_table_def delete_queue_row_def)

lemma queue_table_delete_other:
  "m' \<noteq> m \<Longrightarrow> queue_table m' (delete_queue_row db m i) = queue_table m' db"
  by (cases m; cases m') (simp_all add: queue_table_def delete_queue_row_def)

text \<open>
  The mapping the lookup answers with is the static mapping of the row, and a row the
  scan deletes has none.
\<close>

lemma lookup_row_mapping: "lookup_mapping f db m r = Inr x \<Longrightarrow> row_mapping db r = x"
  by (auto simp: lookup_mapping_def row_mapping_def split: if_splits option.splits)

lemma eligible_row_mapping: "eligible f m db r \<Longrightarrow> \<exists>mp. row_mapping db r = Some mp"
  by (auto simp: eligible_def split: sum.splits option.splits dest: lookup_row_mapping)

lemma deleted_by_iff:
  "deleted_by f m db r \<longleftrightarrow>
     \<not> lookup_raises f m r \<and> q_basket r \<noteq> None \<and> row_mapping db r = None
     \<and> \<not> delete_raises f m r"
  by (auto simp: deleted_by_def lookup_mapping_def row_mapping_def split: option.splits)

lemma deleted_not_eligible: "deleted_by f m db r \<Longrightarrow> \<not> eligible f m db r"
  by (simp add: deleted_by_def eligible_def)

text \<open>One step of a scan: return an eligible row, delete a garbage row, pass over any other.\<close>

lemma first_usable_step:
  "first_usable f db m (r # rs) =
     (if eligible f m db r then (Some (r, the (row_mapping db r)), db)
      else first_usable f
             (if deleted_by f m db r then delete_queue_row db m (q_id r) else db) m rs)"
proof (cases "lookup_mapping f db m r")
  case (Inl e)
  then show ?thesis by (simp add: eligible_def deleted_by_def)
next
  case (Inr x)
  then have rm: "row_mapping db r = x" by (rule lookup_row_mapping)
  show ?thesis
  proof (cases x)
    case None
    with Inr show ?thesis by (simp add: eligible_def deleted_by_def)
  next
    case (Some mp)
    with Inr rm show ?thesis by (simp add: eligible_def deleted_by_def)
  qed
qed

declare first_usable.simps(2) [simp del]

lemma passed_over_Cons:
  "passed_over f m db (r # rs) = (if eligible f m db r then [] else r # passed_over f m db rs)"
  by (simp add: passed_over_def)

lemma garbage_ids_Nil [simp]: "garbage_ids f m db [] = {}"
  by (simp add: garbage_ids_def passed_over_def)

lemma garbage_ids_Cons:
  "garbage_ids f m db (r # rs) =
     (if eligible f m db r then {}
      else if deleted_by f m db r then insert (q_id r) (garbage_ids f m db rs)
      else garbage_ids f m db rs)"
  by (auto simp: garbage_ids_def passed_over_Cons)

text \<open>The candidate of a scan is the first eligible row, with its mapping.\<close>

lemma first_usable_candidate:
  "fst (first_usable f db m rs) =
     (case find (eligible f m db) rs of
        None \<Rightarrow> None
      | Some r \<Rightarrow> Some (r, the (row_mapping db r)))"
proof (induction rs arbitrary: db)
  case Nil
  show ?case by simp
next
  case (Cons r rs)
  show ?case
  proof (cases "eligible f m db r")
    case True
    then show ?thesis by (simp add: first_usable_step)
  next
    case False
    show ?thesis
    proof (cases "deleted_by f m db r")
      case True
      with False Cons [of "delete_queue_row db m (q_id r)"] show ?thesis
        by (simp add: first_usable_step cong: option.case_cong)
    next
      case nd: False
      with False Cons [of db] show ?thesis
        by (simp add: first_usable_step)
    qed
  qed
qed

lemma first_usable_queue:
  "queue_table m (snd (first_usable f db m rs)) =
     filter (\<lambda>x. q_id x \<notin> garbage_ids f m db rs) (queue_table m db)"
proof (induction rs arbitrary: db)
  case Nil
  show ?case by simp
next
  case (Cons r rs)
  show ?case
  proof (cases "eligible f m db r")
    case True
    then show ?thesis by (simp add: first_usable_step garbage_ids_Cons)
  next
    case False
    show ?thesis
    proof (cases "deleted_by f m db r")
      case True
      with False Cons [of "delete_queue_row db m (q_id r)"] show ?thesis
        by (simp add: first_usable_step garbage_ids_Cons queue_table_delete_same conj_commute)
    next
      case nd: False
      with False Cons [of db] show ?thesis
        by (simp add: first_usable_step garbage_ids_Cons)
    qed
  qed
qed

lemma first_usable_other_queue:
  "m' \<noteq> m \<Longrightarrow> queue_table m' (snd (first_usable f db m rs)) = queue_table m' db"
proof (induction rs arbitrary: db)
  case Nil
  show ?case by simp
next
  case (Cons r rs)
  from Cons.prems Cons.IH [of db] Cons.IH [of "delete_queue_row db m (q_id r)"] show ?case
    by (simp add: first_usable_step queue_table_delete_other)
qed

lemma first_usable_static:
  "shelf_data (snd (first_usable f db m rs)) = shelf_data db
   \<and> basket_data (snd (first_usable f db m rs)) = basket_data db"
proof (induction rs arbitrary: db)
  case Nil
  show ?case by simp
next
  case (Cons r rs)
  from Cons [of db] Cons [of "delete_queue_row db m (q_id r)"] show ?case
    by (simp add: first_usable_step)
qed

lemma first_usable_eligible:
  "eligible f' m' (snd (first_usable f db m rs)) = eligible f' m' db"
  by (rule eligible_static) (simp_all add: first_usable_static)

lemma first_usable_row_mapping:
  "row_mapping (snd (first_usable f db m rs)) = row_mapping db"
  by (rule row_mapping_static) (simp_all add: first_usable_static)

lemma select_next_parts:
  "select_next f db n =
     (let p = fst (first_usable f db PICK (window PICK db n));
          db1 = snd (first_usable f db PICK (window PICK db n));
          q = fst (first_usable f db1 PUT (window PUT db n));
          db2 = snd (first_usable f db1 PUT (window PUT db n))
      in (case (p, q) of
            (Some (p_job, p_map), None) \<Rightarrow> Some (PICK, p_job, p_map)
          | (None, Some (q_job, q_map)) \<Rightarrow> Some (PUT, q_job, q_map)
          | (Some (p_job, p_map), Some (q_job, q_map)) \<Rightarrow>
              (case created_le p_job q_job of
                 Some True \<Rightarrow> Some (PICK, p_job, p_map)
               | Some False \<Rightarrow> Some (PUT, q_job, q_map)
               | None \<Rightarrow> Some (PICK, p_job, p_map))
          | (None, None) \<Rightarrow> None, db2))"
  by (simp add: select_next_def window_def Let_def case_prod_beta
      split: option.splits bool.splits)

lemma select_next_db:
  "snd (select_next f db n) =
     snd (first_usable f (snd (first_usable f db PICK (window PICK db n))) PUT (window PUT db n))"
  by (simp add: select_next_parts Let_def)

lemma select_next_static:
  "shelf_data (snd (select_next f db n)) = shelf_data db
   \<and> basket_data (snd (select_next f db n)) = basket_data db"
  by (simp add: select_next_db first_usable_static)

lemma select_next_queue:
  "queue_table m (snd (select_next f db n)) =
     filter (\<lambda>x. q_id x \<notin> garbage_ids f m db (window m db n)) (queue_table m db)"
proof (cases m)
  case PICK
  then show ?thesis
    by (simp add: select_next_db first_usable_other_queue first_usable_queue)
next
  case PUT
  have "garbage_ids f PUT (snd (first_usable f db PICK (window PICK db n))) (window PUT db n)
        = garbage_ids f PUT db (window PUT db n)"
    by (rule garbage_ids_static) (simp_all add: first_usable_static)
  with PUT show ?thesis
    by (simp add: select_next_db first_usable_other_queue first_usable_queue)
qed

lemma select_next_candidates:
  "fst (select_next f db n) =
     (case (candidate f PICK db n, candidate f PUT db n) of
        (Some p, None) \<Rightarrow> Some (PICK, p, the (row_mapping db p))
      | (None, Some q) \<Rightarrow> Some (PUT, q, the (row_mapping db q))
      | (Some p, Some q) \<Rightarrow>
          (case created_le p q of
             Some True \<Rightarrow> Some (PICK, p, the (row_mapping db p))
           | Some False \<Rightarrow> Some (PUT, q, the (row_mapping db q))
           | None \<Rightarrow> Some (PICK, p, the (row_mapping db p)))
      | (None, None) \<Rightarrow> None)"
  by (simp add: select_next_parts Let_def first_usable_candidate first_usable_eligible
      first_usable_row_mapping candidate_def split: option.splits bool.splits)

lemma find_eligible_mapping:
  "find (eligible f m db) rs = Some r \<Longrightarrow> \<exists>mp. row_mapping db r = Some mp"
  by (auto simp: find_Some_iff dest: eligible_row_mapping)

lemma select_next_returns_mapped:
  assumes "fst (select_next f db n) = Some (m, j, mp)"
  shows "row_mapping db j = Some mp"
  using assms
  by (auto simp: select_next_candidates candidate_def split: option.splits bool.splits
      dest!: find_eligible_mapping)

lemma polls_static:
  "shelf_data (polls fs k n db) = shelf_data db \<and> basket_data (polls fs k n db) = basket_data db"
  by (induction k) (simp_all add: select_next_static)

lemma polls_row_mapping: "row_mapping (polls fs k n db) = row_mapping db"
  by (rule row_mapping_static) (simp_all add: polls_static)

lemma polls_queue_subset: "set (queue_table m (polls fs k n db)) \<subseteq> set (queue_table m db)"
proof (induction k)
  case 0
  show ?case by simp
next
  case (Suc k)
  have "set (queue_table m (polls fs (Suc k) n db)) \<subseteq> set (queue_table m (polls fs k n db))"
    by (auto simp: select_next_queue)
  also note Suc
  finally show ?case .
qed

lemma window_subset: "set (window m db n) \<subseteq> set (queue_table m db)"
proof -
  have "set (take n (sort_key created_key xs)) \<subseteq> set xs" for xs :: "queue_row list"
    using set_take_subset [of n "sort_key created_key xs"] by simp
  then show ?thesis
    by (cases m) (simp_all add: window_def next_command_window_def queue_table_def)
qed

lemma passed_over_subset: "set (passed_over f m db rs) \<subseteq> set rs"
  by (auto simp: passed_over_def dest: set_takeWhileD)

text \<open>
  A row of a queue with distinct ids that the scan does not delete is in the queue
  after the call; the ids stay distinct; so a row without a basket stays for ever.
\<close>

lemma select_next_keeps:
  assumes "r \<in> set (queue_table m db)"
    and "distinct (map q_id (queue_table m db))"
    and "\<not> deleted_by f m db r"
  shows "r \<in> set (queue_table m (snd (select_next f db n)))"
proof -
  have "q_id r \<notin> garbage_ids f m db (window m db n)"
  proof
    assume "q_id r \<in> garbage_ids f m db (window m db n)"
    then obtain g where g: "g \<in> set (passed_over f m db (window m db n))"
      and gd: "deleted_by f m db g" and id: "q_id g = q_id r"
      by (auto simp: garbage_ids_def)
    have "g \<in> set (queue_table m db)"
      using g passed_over_subset window_subset by blast
    with assms(1,2) id have "g = r"
      by (auto simp: distinct_map dest: inj_onD)
    with gd assms(3) show False by simp
  qed
  with assms(1) show ?thesis
    by (simp add: select_next_queue)
qed

lemma select_next_distinct:
  "distinct (map q_id (queue_table m db)) \<Longrightarrow>
   distinct (map q_id (queue_table m (snd (select_next f db n))))"
  by (simp add: select_next_queue distinct_map_filter)

lemma polls_distinct:
  "distinct (map q_id (queue_table m db)) \<Longrightarrow>
   distinct (map q_id (queue_table m (polls fs k n db)))"
  by (induction k) (simp_all add: select_next_distinct)

lemma null_basket_stays:
  assumes "r \<in> set (queue_table m db)"
    and "distinct (map q_id (queue_table m db))"
    and "q_basket r = None"
  shows "r \<in> set (queue_table m (polls fs k n db))"
proof (induction k)
  case 0
  from assms(1) show ?case by simp
next
  case (Suc k)
  have "\<not> deleted_by (fs k) m (polls fs k n db) r"
    using assms(3) by (simp add: deleted_by_iff)
  with Suc polls_distinct [OF assms(2)] show ?case
    by (simp add: select_next_keeps)
qed

lemma strip_B5: "strip ''B000000005'' = ''B000000005''"
  by (simp add: strip_def is_space_def)
lemma strip_B6: "strip ''B000000006'' = ''B000000006''"
  by (simp add: strip_def is_space_def)
lemma strip_B7: "strip ''B000000007'' = ''B000000007''"
  by (simp add: strip_def is_space_def)
lemma strip_B9: "strip ''B000000009'' = ''B000000009''"
  by (simp add: strip_def is_space_def)

lemma no_faults_simps [simp]:
  "lookup_raises no_faults m r = False"
  "delete_raises no_faults m r = False"
  "can_use_raises no_faults m r = False"
  by (simp_all add: no_faults_def)

lemma example_row_simps:
  "q_id (example_row i b t) = i"
  "q_basket (example_row i b t) = Some b"
  "q_created_at (example_row i b t) = Some t"
  by (simp_all add: example_row_def)

lemma example_window_pick:
  "window PICK example_queue_db 20 =
     [example_row 1 ''B000000009'' 1, example_row 2 ''B000000006'' 2, example_row 3 ''B000000005'' 5]"
  by (simp add: window_def next_command_window_def example_queue_db_def example_row_def created_key_def)

lemma example_window_put:
  "window PUT example_queue_db 20 = [example_row 1 ''B000000007'' 5]"
  by (simp add: window_def next_command_window_def example_queue_db_def example_row_def created_key_def)

lemma example_mappings:
  "get_mapping_for_basket example_queue_db ''B000000009'' = None"
  "get_mapping_for_basket example_queue_db ''B000000006'' = Some (2, 3, 12, 0)"
  "get_mapping_for_basket example_queue_db ''B000000005'' = Some (1, 3, 12, 0)"
  "get_mapping_for_basket example_queue_db ''B000000007'' = Some (3, 3, 12, 0)"
  by (simp_all add: get_mapping_for_basket_def example_queue_db_def example_shelf_def
      strip_B5 strip_B6 strip_B7 strip_B9)

lemma example_row_mappings:
  "row_mapping example_queue_db (example_row i ''B000000009'' t) = None"
  "row_mapping example_queue_db (example_row i ''B000000006'' t) = Some (2, 3, 12, 0)"
  "row_mapping example_queue_db (example_row i ''B000000005'' t) = Some (1, 3, 12, 0)"
  "row_mapping example_queue_db (example_row i ''B000000007'' t) = Some (3, 3, 12, 0)"
  by (simp_all add: row_mapping_def example_row_simps example_mappings)

lemma example_can_use:
  "shelf_can_use example_queue_db 1" "\<not> shelf_can_use example_queue_db 2"
  "shelf_can_use example_queue_db 3"
  by (simp_all add: shelf_can_use_def example_queue_db_def example_shelf_def)

lemma example_eligible:
  "\<not> eligible no_faults m example_queue_db (example_row 1 ''B000000009'' 1)"
  "\<not> eligible no_faults m example_queue_db (example_row 2 ''B000000006'' 2)"
  "eligible no_faults m example_queue_db (example_row 3 ''B000000005'' 5)"
  "eligible no_faults m example_queue_db (example_row 1 ''B000000007'' 5)"
  by (simp_all add: eligible_def lookup_mapping_def example_row_simps example_mappings
      example_can_use)

lemma example_candidates:
  "candidate no_faults PICK example_queue_db 20 = Some (example_row 3 ''B000000005'' 5)"
  "candidate no_faults PUT example_queue_db 20 = Some (example_row 1 ''B000000007'' 5)"
  by (simp_all add: candidate_def example_window_pick example_window_put example_eligible)

text \<open>
  Claim C5, as the code has it. The candidate of a queue is the first eligible row
  (the lookup of its basket answers with a mapping, and \<open>shelf_can_use\<close> answers that
  the mapped shelf is usable) among the \<open>n\<close> oldest rows of the queue, the window that
  \<open>select_next\<close> reads (\<open>n = 20\<close> in the mover's loop). When both candidates exist and
  carry a timestamp, \<open>select_next\<close> returns the one created earlier, and the PICK one
  when the timestamps are equal; when only one exists it is returned; when neither
  exists the result is "no job", a value and not an error. This holds whichever calls
  of the scan raise.
\<close>

theorem select_next_policy:
  "(candidate f PICK db n = Some p \<and> candidate f PUT db n = Some q
      \<and> q_created_at p = Some tp \<and> q_created_at q = Some tq
      \<and> row_mapping db p = Some pm
      \<and> row_mapping db q = Some qm
    \<longrightarrow> fst (select_next f db n) = (if tp \<le> tq then Some (PICK, p, pm) else Some (PUT, q, qm)))
   \<and> (candidate f PICK db n = Some p \<and> candidate f PUT db n = None
      \<and> row_mapping db p = Some pm
    \<longrightarrow> fst (select_next f db n) = Some (PICK, p, pm))
   \<and> (candidate f PICK db n = None \<and> candidate f PUT db n = Some q
      \<and> row_mapping db q = Some qm
    \<longrightarrow> fst (select_next f db n) = Some (PUT, q, qm))
   \<and> (candidate f PICK db n = None \<and> candidate f PUT db n = None
    \<longrightarrow> fst (select_next f db n) = None)"
  by (simp add: select_next_candidates created_le_def)

theorem select_next_policy_witness:
  "fst (select_next no_faults example_queue_db 20)
     = Some (PICK, example_row 3 ''B000000005'' 5, (1, 3, 12, 0))"
proof -
  from select_next_policy [of no_faults example_queue_db 20 "example_row 3 ''B000000005'' 5"
      "example_row 1 ''B000000007'' 5" 5 5 "(1, 3, 12, 0)" "(3, 3, 12, 0)"]
  show ?thesis
    by (simp add: example_candidates example_row_simps example_row_mappings)
qed

lemma null_static:
  "shelf_data example_null_db = shelf_data example_queue_db"
  "basket_data example_null_db = basket_data example_queue_db"
  by (simp_all add: example_null_db_def)

lemma null_row_mapping: "row_mapping example_null_db = row_mapping example_queue_db"
  by (rule row_mapping_static) (simp_all add: null_static)

lemma null_eligible: "eligible f m example_null_db = eligible f m example_queue_db"
  by (rule eligible_static) (simp_all add: null_static)

lemma null_row_simps:
  "q_id null_row = 4" "q_basket null_row = None" "q_created_at null_row = Some 0"
  by (simp_all add: null_row_def)

lemma null_row_not_eligible: "\<not> eligible f m db null_row"
  by (simp add: eligible_def lookup_mapping_def null_row_simps)

lemma null_queue_pick:
  "queue_table PICK example_null_db =
     [null_row, example_row 3 ''B000000005'' 5, example_row 1 ''B000000009'' 1,
      example_row 2 ''B000000006'' 2]"
  by (simp add: queue_table_def example_null_db_def example_queue_db_def)

lemma null_window_pick:
  "window PICK example_null_db 20 =
     [null_row, example_row 1 ''B000000009'' 1, example_row 2 ''B000000006'' 2,
      example_row 3 ''B000000005'' 5]"
  by (simp add: window_def next_command_window_def example_null_db_def example_queue_db_def
      example_row_def null_row_def created_key_def)

lemma null_distinct: "distinct (map q_id (queue_table PICK example_null_db))"
  by (simp add: null_queue_pick example_row_simps null_row_simps)

lemma delete_fault_simps:
  "lookup_raises delete_fault m r = False"
  "can_use_raises delete_fault m r = False"
  "delete_raises delete_fault m r = (m = PICK \<and> q_id r = 1)"
  by (simp_all add: delete_fault_def no_faults_def)

lemma delete_fault_eligible: "eligible delete_fault m db = eligible no_faults m db"
  unfolding eligible_def lookup_mapping_def delete_fault_simps no_faults_simps
  by (rule refl)

lemma null_passed_over:
  "passed_over no_faults PICK example_null_db (window PICK example_null_db 20) =
     [null_row, example_row 1 ''B000000009'' 1, example_row 2 ''B000000006'' 2]"
  "passed_over delete_fault PICK example_null_db (window PICK example_null_db 20) =
     [null_row, example_row 1 ''B000000009'' 1, example_row 2 ''B000000006'' 2]"
  by (simp_all add: passed_over_def null_window_pick delete_fault_eligible null_eligible
      null_row_not_eligible example_eligible)




lemma long_static:
  "shelf_data example_long_db = shelf_data example_queue_db"
  "basket_data example_long_db = basket_data example_queue_db"
  by (simp_all add: example_long_db_def)

lemma long_eligible':
  "eligible f m example_long_db = eligible f m example_queue_db"
  by (rule eligible_static) (simp_all add: long_static)

lemma long_row_mapping: "row_mapping example_long_db = row_mapping example_queue_db"
  by (rule row_mapping_static) (simp_all add: long_static)

lemma eligible_B:
  "eligible no_faults m example_queue_db (example_row i ''B000000006'' t) = False"
  "eligible no_faults m example_queue_db (example_row i ''B000000005'' t) = True"
  "eligible no_faults m example_queue_db (example_row i ''B000000007'' t) = True"
  by (simp_all add: eligible_def lookup_mapping_def example_row_simps example_mappings
      example_can_use)

lemma long_eligible:
  "eligible no_faults m example_long_db (example_row i ''B000000006'' t) = False"
  "eligible no_faults m example_long_db (example_row i ''B000000005'' t) = True"
  "eligible no_faults m example_long_db (example_row i ''B000000007'' t) = True"
  by (simp_all add: long_eligible' eligible_B)

lemma long_sorted:
  "sort_key created_key (queue_pick example_long_db) = queue_pick example_long_db"
  by (simp add: example_long_db_def example_row_def created_key_def)

lemma long_pick:
  "queue_pick example_long_db =
     map (\<lambda>i. example_row i ''B000000006'' i)
       [1, 2, 3, 4, 5, 6, 7, 8, 9, 10, 11, 12, 13, 14, 15, 16, 17, 18, 19, 20]
     @ [example_row 21 ''B000000005'' 21]"
  "queue_put example_long_db = [example_row 1 ''B000000007'' 100]"
  by (simp_all add: example_long_db_def)

lemma long_q1:
  "find (eligible no_faults PICK example_long_db) (queue_pick example_long_db)
     = Some (example_row 21 ''B000000005'' 21)"
  by (simp add: long_pick long_eligible)

lemma long_q2:
  "find (eligible no_faults PICK example_long_db) (take 20 (queue_pick example_long_db)) = None"
  by (simp add: long_pick long_eligible)

lemma long_sorted_put:
  "sort_key created_key (queue_put example_long_db) = queue_put example_long_db"
  by (simp add: long_pick)

lemma long_queue_candidates:
  "queue_candidate no_faults PICK example_long_db = Some (example_row 21 ''B000000005'' 21)"
  "queue_candidate no_faults PUT example_long_db = Some (example_row 1 ''B000000007'' 100)"
  by (simp_all add: queue_candidate_def queue_table_def long_sorted long_sorted_put long_q1)
    (simp add: long_pick long_eligible)

lemma long_window_candidates:
  "candidate no_faults PICK example_long_db 20 = None"
  "candidate no_faults PUT example_long_db 20 = Some (example_row 1 ''B000000007'' 100)"
  by (simp_all add: candidate_def window_def next_command_window_def long_sorted
      long_sorted_put long_q2)
    (simp add: long_pick long_eligible)

text \<open>
  The claim as written takes the first eligible row of the whole queue as the candidate.
  With twenty older rows for an unusable shelf in front of it, the pick queue's first
  eligible row (created at 21) lies outside the window, and \<open>select_next\<close> returns the
  put job created at 100.
\<close>

theorem select_next_window_counterexample:
  "queue_candidate no_faults PICK example_long_db = Some (example_row 21 ''B000000005'' 21)
   \<and> queue_candidate no_faults PUT example_long_db = Some (example_row 1 ''B000000007'' 100)
   \<and> q_created_at (example_row 21 ''B000000005'' 21) = Some 21
   \<and> q_created_at (example_row 1 ''B000000007'' 100) = Some 100
   \<and> fst (select_next no_faults example_long_db 20)
       = Some (PUT, example_row 1 ''B000000007'' 100, (3, 3, 12, 0))"
proof -
  have "fst (select_next no_faults example_long_db 20)
       = Some (PUT, example_row 1 ''B000000007'' 100, (3, 3, 12, 0))"
    by (simp add: select_next_candidates long_window_candidates)
      (simp add: long_row_mapping example_row_mappings)
  then show ?thesis
    by (simp add: long_queue_candidates) (simp add: example_row_def)
qed

section \<open>Properties: the command string\<close>

lemma length_str_nat_le: "0 < k \<Longrightarrow> n < 10 ^ k \<Longrightarrow> length (str_nat n) \<le> k"
proof (induction k arbitrary: n)
  case 0
  then show ?case by simp
next
  case (Suc k)
  show ?case
  proof (cases "n < 10")
    case True
    then show ?thesis by (subst str_nat.simps) simp
  next
    case False
    then have k: "0 < k" using Suc.prems by (cases k) auto
    have "n div 10 < 10 ^ k" using Suc.prems by (simp add: less_mult_imp_div_less mult.commute)
    with Suc.IH [OF k] have "length (str_nat (n div 10)) \<le> k" by simp
    with False show ?thesis by (subst str_nat.simps) simp
  qed
qed

lemma length_str_nat_gt: "10 ^ k \<le> n \<Longrightarrow> k < length (str_nat n)"
proof (induction k arbitrary: n)
  case 0
  then show ?case using str_nat_nonempty [of n] by (cases "str_nat n") auto
next
  case (Suc k)
  have "(10::nat) \<le> 10 * 10 ^ k" by simp
  also have "\<dots> \<le> n" using Suc.prems by simp
  finally have "\<not> n < 10" by simp
  moreover have "10 ^ k \<le> n div 10" using Suc.prems by (simp add: less_eq_div_iff_mult_less_eq mult.commute)
  then have "k < length (str_nat (n div 10))" by (rule Suc.IH)
  ultimately show ?case by (subst str_nat.simps) simp
qed

lemma length_str_nat_1: "n < 10 \<Longrightarrow> length (str_nat n) = 1"
  by (subst str_nat.simps) simp

lemma py_str_int_nonneg: "0 \<le> i \<Longrightarrow> py_str_int i = str_nat (nat i)"
  by (simp add: py_str_int_def)

lemma length_id4: "length (id4 n) = 4"
  by (simp add: id4_def Let_def)

lemma drop_pad:
  "length s \<le> 4 \<Longrightarrow>
   drop (length (replicate 4 c @ s) - 4) (replicate 4 c @ s) = replicate (4 - length s) c @ s"
  by simp

lemma id4_in_range:
  assumes "0 \<le> i" and "i < 10000"
  shows "id4 i = zero_pad 4 (str_nat (nat i))"
proof -
  have "nat i < 10 ^ 4" using assms by simp
  then have l: "length (str_nat (nat i)) \<le> 4"
    using length_str_nat_le [of 4 "nat i"] by simp
  have e: "''0000'' = replicate 4 CHR ''0''"
    by (simp add: numeral_eq_Suc)
  have "id4 i = drop (length (replicate 4 CHR ''0'' @ str_nat (nat i)) - 4)
                  (replicate 4 CHR ''0'' @ str_nat (nat i))"
    unfolding id4_def Let_def e using assms(1) by (simp only: py_str_int_nonneg)
  also have "\<dots> = replicate (4 - length (str_nat (nat i))) CHR ''0'' @ str_nat (nat i)"
    using l by (rule drop_pad)
  finally show ?thesis by (simp add: zero_pad_def)
qed

text \<open>
  The last \<open>k\<close> characters of the zero-prefixed numeral of \<open>n\<close> are the numeral of
  \<open>n mod 10 ^ k\<close> padded to \<open>k\<close> digits: \<open>_id4\<close> keeps the last four digits of a sequence
  id of 10000 or more.
\<close>

lemma str_nat_0: "str_nat 0 = ''0''"
  by (simp add: str_nat.simps digit_char_def)

lemma zero_pad_snoc:
  "zero_pad (Suc (Suc k)) (str_nat m) =
     zero_pad (Suc k) (str_nat (m div 10)) @ [digit_char (m mod 10)]"
proof (cases "m < 10")
  case True
  have "replicate k CHR ''0'' @ ''0'' = replicate (Suc k) CHR ''0''"
    by (simp add: replicate_append_same)
  with True show ?thesis
    by (subst str_nat.simps) (simp add: zero_pad_def str_nat_0)
next
  case False
  then show ?thesis
    by (subst str_nat.simps) (simp add: zero_pad_def)
qed

lemma drop_last_snoc:
  "drop (length (xs @ [c]) - Suc k) (xs @ [c]) = drop (length xs - k) xs @ [c]"
  by simp

lemma last_digits:
  "Suc k \<le> j \<Longrightarrow>
   drop (length (replicate j CHR ''0'' @ str_nat n) - Suc k) (replicate j CHR ''0'' @ str_nat n)
     = zero_pad (Suc k) (str_nat (n mod 10 ^ Suc k))"
proof (induction k arbitrary: n j)
  case 0
  have m: "n mod 10 < 10" by simp
  have "\<exists>ys. str_nat n = ys @ [digit_char (n mod 10)]"
    by (subst str_nat.simps) (cases "n < 10"; simp)
  then obtain ys where ys: "str_nat n = ys @ [digit_char (n mod 10)]" ..
  have "drop (length (replicate j CHR ''0'' @ str_nat n) - Suc 0)
          (replicate j CHR ''0'' @ str_nat n) = [digit_char (n mod 10)]"
    unfolding ys by simp
  moreover have "str_nat (n mod 10) = [digit_char (n mod 10)]"
    using m by (subst str_nat.simps) simp
  ultimately show ?case
    by (simp add: zero_pad_def)
next
  case (Suc k)
  let ?z = "replicate j CHR ''0''"
  let ?m = "n mod 10 ^ Suc (Suc k)"
  show ?case
  proof (cases "n < 10")
    case True
    have "(0::nat) < 10 ^ k" by simp
    with True have "n < 100 * 10 ^ k" by linarith
    then have "n < 10 ^ Suc (Suc k)" by simp
    then have nm: "?m = n" by (rule mod_less)
    have s: "str_nat n = [digit_char n]"
      using True by (subst str_nat.simps) simp
    have "drop (length (?z @ [digit_char n]) - Suc (Suc k)) (?z @ [digit_char n])
            = drop (length ?z - Suc k) ?z @ [digit_char n]"
      by (rule drop_last_snoc)
    also have "drop (length ?z - Suc k) ?z = replicate (Suc k) CHR ''0''"
      using Suc.prems by simp
    finally show ?thesis
      unfolding nm s by (simp add: zero_pad_def)
  next
    case False
    have s: "str_nat n = str_nat (n div 10) @ [digit_char (n mod 10)]"
      using False by (subst str_nat.simps) simp
    have d: "?m div 10 = (n div 10) mod 10 ^ Suc k"
      using mod_mult2_eq [of n 10 "10 ^ Suc k"] by simp
    have r: "?m mod 10 = n mod 10"
      by (simp add: mod_mod_cancel)
    have j: "Suc k \<le> j" using Suc.prems by simp
    have "drop (length (?z @ str_nat n) - Suc (Suc k)) (?z @ str_nat n)
            = drop (length ((?z @ str_nat (n div 10)) @ [digit_char (n mod 10)]) - Suc (Suc k))
                ((?z @ str_nat (n div 10)) @ [digit_char (n mod 10)])"
      unfolding s by simp
    also have "\<dots> = drop (length (?z @ str_nat (n div 10)) - Suc k) (?z @ str_nat (n div 10))
                     @ [digit_char (n mod 10)]"
      by (rule drop_last_snoc)
    also have "\<dots> = zero_pad (Suc k) (str_nat ((n div 10) mod 10 ^ Suc k))
                     @ [digit_char (n mod 10)]"
      using Suc.IH [OF j] by simp
    also have "\<dots> = zero_pad (Suc (Suc k)) (str_nat ?m)"
      unfolding zero_pad_snoc [of k ?m] d r by (rule refl)
    finally show ?thesis .
  qed
qed

lemma id4_wraps:
  assumes "0 \<le> i"
  shows "id4 i = zero_pad 4 (str_nat (nat i mod 10000))"
proof -
  have e: "''0000'' = replicate 4 CHR ''0''"
    by (simp add: numeral_eq_Suc)
  have "id4 i = drop (length (replicate 4 CHR ''0'' @ str_nat (nat i)) - Suc 3)
                  (replicate 4 CHR ''0'' @ str_nat (nat i))"
    unfolding id4_def Let_def e using assms(1) by (simp only: py_str_int_nonneg) simp
  also have "\<dots> = zero_pad (Suc 3) (str_nat (nat i mod 10 ^ Suc 3))"
    by (rule last_digits) simp
  finally show ?thesis by simp
qed

lemma d2_in_range:
  assumes "0 \<le> x" and "x < 100"
  shows "d2 x = zero_pad 2 (str_nat (nat x))" and "length (d2 x) = 2"
proof -
  have "nat x < 10 ^ 2" using assms by simp
  then have l: "length (str_nat (nat x)) \<le> 2"
    using length_str_nat_le [of 2 "nat x"] by simp
  have "length (str_nat (nat x)) \<noteq> 0" using str_nat_nonempty by simp
  with l have "length (str_nat (nat x)) = 1 \<or> length (str_nat (nat x)) = 2" by linarith
  then show "d2 x = zero_pad 2 (str_nat (nat x))" and "length (d2 x) = 2"
    using assms by (auto simp: d2_def zero_pad_def py_str_int_nonneg Let_def)
qed

lemma d2_overflow:
  assumes "100 \<le> x"
  shows "2 < length (d2 x)"
proof -
  have "10 ^ 2 \<le> nat x" using assms by simp
  then have "2 < length (str_nat (nat x))" by (rule length_str_nat_gt)
  then show ?thesis using assms by (simp add: d2_def py_str_int_nonneg Let_def)
qed

lemma depth_digit: "0 \<le> z \<Longrightarrow> z < 10 \<Longrightarrow> length (py_str_int z) = 1"
  by (simp add: py_str_int_nonneg length_str_nat_1)

lemma cmd_str_example: "cmd_str 7 PUT 3 12 0 ''B000000005'' = ''0007003120B000000005''"
  by (simp add: cmd_str_def id4_def d2_def py_str_int_def str_nat.simps digit_char_def)


lemma read_crane_position_keeps:
  "w_db (read_crane_position dev w) = w_db w" "w_log (read_crane_position dev w) = w_log w"
  by (simp_all add: read_crane_position_def get_value_def Let_def)

lemma loop_rejects:
  assumes "fst (select_next f (w_db w) 20) = Some (m, row, (sid, x, y, z))"
    and "length (cmd_str i m x y z (basket_text row)) \<noteq> 20"
  shows "loop_iteration dev f i w =
           (i, sleep 100 ((read_crane_position dev w)\<lparr>w_db := snd (select_next f (w_db w) 20)\<rparr>))"
  using assms
  by (simp add: loop_iteration_def read_crane_position_keeps Let_def case_prod_beta)

lemma cmd_str_format:
  assumes "0 \<le> i" "i < 10000" "0 \<le> x" "x < 100" "0 \<le> y" "y < 100" "0 \<le> z" "z < 10"
  shows "cmd_str i m x y z b =
           zero_pad 4 (str_nat (nat i)) @ (if m = PUT then ''0'' else ''1'')
           @ zero_pad 2 (str_nat (nat x)) @ zero_pad 2 (str_nat (nat y)) @ str_nat (nat z) @ b"
    and "length (cmd_str i m x y z b) = 10 + length b"
proof -
  have i: "id4 i = zero_pad 4 (str_nat (nat i))"
    using assms(1,2) by (rule id4_in_range)
  have x: "d2 x = zero_pad 2 (str_nat (nat x))" and y: "d2 y = zero_pad 2 (str_nat (nat y))"
    using assms(3-6) by (simp_all add: d2_in_range(1))
  have z: "py_str_int z = str_nat (nat z)"
    using assms(7) by (rule py_str_int_nonneg)
  show "cmd_str i m x y z b =
           zero_pad 4 (str_nat (nat i)) @ (if m = PUT then ''0'' else ''1'')
           @ zero_pad 2 (str_nat (nat x)) @ zero_pad 2 (str_nat (nat y)) @ str_nat (nat z) @ b"
    unfolding cmd_str_def i x y z by (rule refl)
  have "length (d2 x) = 2" "length (d2 y) = 2" "length (py_str_int z) = 1"
    using assms by (simp_all add: d2_in_range(2) depth_digit)
  then show "length (cmd_str i m x y z b) = 10 + length b"
    by (simp add: cmd_str_def length_id4)
qed

lemma cmd_str_wraps:
  assumes "0 \<le> i" "0 \<le> x" "x < 100" "0 \<le> y" "y < 100" "0 \<le> z" "z < 10"
  shows "cmd_str i m x y z b =
           zero_pad 4 (str_nat (nat i mod 10000)) @ (if m = PUT then ''0'' else ''1'')
           @ zero_pad 2 (str_nat (nat x)) @ zero_pad 2 (str_nat (nat y)) @ str_nat (nat z) @ b"
proof -
  have i: "id4 i = zero_pad 4 (str_nat (nat i mod 10000))"
    using assms(1) by (rule id4_wraps)
  have x: "d2 x = zero_pad 2 (str_nat (nat x))" and y: "d2 y = zero_pad 2 (str_nat (nat y))"
    using assms(2-5) by (simp_all add: d2_in_range(1))
  have z: "py_str_int z = str_nat (nat z)"
    using assms(6) by (rule py_str_int_nonneg)
  show ?thesis
    unfolding cmd_str_def i x y z by (rule refl)
qed

lemma cmd_str_length:
  assumes "0 \<le> x" "x < 100" "0 \<le> y" "y < 100" "0 \<le> z" "z < 10"
  shows "length (cmd_str i m x y z b) = 10 + length b"
proof -
  have "length (d2 x) = 2" "length (d2 y) = 2" "length (py_str_int z) = 1"
    using assms by (simp_all add: d2_in_range(2) depth_digit)
  then show ?thesis
    by (simp add: cmd_str_def length_id4)
qed

lemma cmd_str_wrapped_example:
  "cmd_str 10007 PUT 3 12 0 ''B000000005'' = ''0007003120B000000005''"
  by (simp add: cmd_str_def id4_def d2_def py_str_int_def str_nat.simps digit_char_def)

lemma cmd_str_overflow:
  assumes "100 \<le> x" "0 \<le> y" "y < 100" "0 \<le> z" "z < 10" "length b = 10"
  shows "20 < length (cmd_str i m x y z b)"
  using assms d2_overflow [of x]
  by (simp add: cmd_str_def length_id4 d2_in_range(2) depth_digit)

text \<open>
  Claim C3, as the code has it. For a sequence id, a column, a row and a depth that are
  not negative, a column and a row below 100 and a depth below 10, the command string
  is the concatenation of the 4-digit zero-padded sequence id, \<open>0\<close> for PUT or \<open>1\<close> for
  PICK, the 2-digit zero-padded column, the 2-digit zero-padded row, the depth digit and
  the basket id: 10 characters and the basket id. The id field holds the sequence id
  itself below 10000 and, for every sequence id, its last four digits (the id modulo
  10000): sequence 10007 is encoded as sequence 7 is. A PUT to column 3, row 12, depth 0
  of basket \<open>B000000005\<close> with sequence 7 is \<open>0007003120B000000005\<close>, 20 characters. A
  column of 100 or more makes the string longer than 20. Whenever the string of the
  selected job is not 20 long, the loop iteration gives the job up: the sequence id
  stays, nothing is written to the device and the lock is not taken (the log stays as
  it was).
\<close>

theorem cmd_str_encoding:
  "(0 \<le> i \<and> i < 10000 \<and> 0 \<le> x \<and> x < 100 \<and> 0 \<le> y \<and> y < 100 \<and> 0 \<le> z \<and> z < 10 \<longrightarrow>
      cmd_str i m x y z b =
        zero_pad 4 (str_nat (nat i)) @ (if m = PUT then ''0'' else ''1'')
        @ zero_pad 2 (str_nat (nat x)) @ zero_pad 2 (str_nat (nat y)) @ str_nat (nat z) @ b
      \<and> length (zero_pad 4 (str_nat (nat i))) = 4
      \<and> length (zero_pad 2 (str_nat (nat x))) = 2
      \<and> length (zero_pad 2 (str_nat (nat y))) = 2
      \<and> length (str_nat (nat z)) = 1
      \<and> length (cmd_str i m x y z b) = 10 + length b)
   \<and> (0 \<le> i \<and> 0 \<le> x \<and> x < 100 \<and> 0 \<le> y \<and> y < 100 \<and> 0 \<le> z \<and> z < 10 \<longrightarrow>
      cmd_str i m x y z b =
        zero_pad 4 (str_nat (nat i mod 10000)) @ (if m = PUT then ''0'' else ''1'')
        @ zero_pad 2 (str_nat (nat x)) @ zero_pad 2 (str_nat (nat y)) @ str_nat (nat z) @ b
      \<and> length (zero_pad 4 (str_nat (nat i mod 10000))) = 4
      \<and> length (cmd_str i m x y z b) = 10 + length b
      \<and> cmd_str (i + 10000) m x y z b = cmd_str i m x y z b)
   \<and> cmd_str 7 PUT 3 12 0 ''B000000005'' = ''0007003120B000000005''
   \<and> length (cmd_str 7 PUT 3 12 0 ''B000000005'') = 20
   \<and> (100 \<le> x \<and> 0 \<le> y \<and> y < 100 \<and> 0 \<le> z \<and> z < 10 \<and> length b = 10 \<longrightarrow>
        20 < length (cmd_str i m x y z b))
   \<and> (fst (select_next f (w_db w) 20) = Some (m, row, (sid, x, y, z))
        \<and> length (cmd_str i m x y z (basket_text row)) \<noteq> 20 \<longrightarrow>
        fst (loop_iteration dev f i w) = i
        \<and> w_log (snd (loop_iteration dev f i w)) = w_log w
        \<and> w_send_lock (snd (loop_iteration dev f i w)) = w_send_lock w)"
proof (intro conjI impI)
  assume a: "0 \<le> i \<and> i < 10000 \<and> 0 \<le> x \<and> x < 100 \<and> 0 \<le> y \<and> y < 100 \<and> 0 \<le> z \<and> z < 10"
  then show "cmd_str i m x y z b =
        zero_pad 4 (str_nat (nat i)) @ (if m = PUT then ''0'' else ''1'')
        @ zero_pad 2 (str_nat (nat x)) @ zero_pad 2 (str_nat (nat y)) @ str_nat (nat z) @ b"
    by (simp add: cmd_str_format(1))
  from a show "length (zero_pad 4 (str_nat (nat i))) = 4"
    using length_id4 [of i] by (simp add: id4_in_range)
  from a show "length (zero_pad 2 (str_nat (nat x))) = 2"
    using d2_in_range [of x] by simp
  from a show "length (zero_pad 2 (str_nat (nat y))) = 2"
    using d2_in_range [of y] by simp
  from a have "nat z < 10" by linarith
  then show "length (str_nat (nat z)) = 1"
    by (rule length_str_nat_1)
  from a show "length (cmd_str i m x y z b) = 10 + length b"
    by (simp add: cmd_str_format(2))
next
  assume a: "0 \<le> i \<and> 0 \<le> x \<and> x < 100 \<and> 0 \<le> y \<and> y < 100 \<and> 0 \<le> z \<and> z < 10"
  then show "cmd_str i m x y z b =
        zero_pad 4 (str_nat (nat i mod 10000)) @ (if m = PUT then ''0'' else ''1'')
        @ zero_pad 2 (str_nat (nat x)) @ zero_pad 2 (str_nat (nat y)) @ str_nat (nat z) @ b"
    by (simp add: cmd_str_wraps)
  from a show "length (zero_pad 4 (str_nat (nat i mod 10000))) = 4"
    using length_id4 [of i] by (simp add: id4_wraps)
  from a show "length (cmd_str i m x y z b) = 10 + length b"
    by (simp add: cmd_str_length)
  from a have "nat (i + 10000) mod 10000 = nat i mod 10000"
    by (simp add: nat_add_distrib)
  moreover from a have "0 \<le> i + 10000" by simp
  ultimately have "id4 (i + 10000) = id4 i"
    using a by (simp add: id4_wraps)
  then show "cmd_str (i + 10000) m x y z b = cmd_str i m x y z b"
    by (simp add: cmd_str_def)
next
  show "cmd_str 7 PUT 3 12 0 ''B000000005'' = ''0007003120B000000005''"
    by (rule cmd_str_example)
  show "length (cmd_str 7 PUT 3 12 0 ''B000000005'') = 20"
    by (simp add: cmd_str_example)
next
  assume "100 \<le> x \<and> 0 \<le> y \<and> y < 100 \<and> 0 \<le> z \<and> z < 10 \<and> length b = 10"
  then show "20 < length (cmd_str i m x y z b)"
    by (simp add: cmd_str_overflow)
next
  assume r: "fst (select_next f (w_db w) 20) = Some (m, row, (sid, x, y, z))
        \<and> length (cmd_str i m x y z (basket_text row)) \<noteq> 20"
  then have l: "loop_iteration dev f i w =
           (i, sleep 100 ((read_crane_position dev w)\<lparr>w_db := snd (select_next f (w_db w) 20)\<rparr>))"
    by (simp add: loop_rejects)
  show "fst (loop_iteration dev f i w) = i"
    by (simp add: l)
  show "w_log (snd (loop_iteration dev f i w)) = w_log w"
    by (simp add: l sleep_def read_crane_position_keeps)
  show "w_send_lock (snd (loop_iteration dev f i w)) = w_send_lock w"
    by (simp add: l sleep_def read_crane_position_def get_value_def Let_def)
qed

lemma wide_select:
  "fst (select_next no_faults example_wide_db 20)
     = Some (PUT, example_row 1 ''B000000005'' 5, (1, 100, 12, 0))"
proof -
  have m: "get_mapping_for_basket example_wide_db ''B000000005'' = Some (1, 100, 12, 0)"
    by (simp add: get_mapping_for_basket_def example_wide_db_def example_shelf_def strip_B5)
  have u: "shelf_can_use example_wide_db 1"
    by (simp add: shelf_can_use_def example_wide_db_def example_shelf_def)
  have e: "eligible no_faults PUT example_wide_db (example_row 1 ''B000000005'' 5)"
    by (simp add: eligible_def lookup_mapping_def example_row_simps m u)
  have q: "queue_pick example_wide_db = []"
    "queue_put example_wide_db = [example_row 1 ''B000000005'' 5]"
    by (simp_all add: example_wide_db_def)
  have c: "candidate no_faults PICK example_wide_db 20 = None"
    "candidate no_faults PUT example_wide_db 20 = Some (example_row 1 ''B000000005'' 5)"
    by (simp_all add: candidate_def window_def next_command_window_def q e)
  show ?thesis
    by (simp add: select_next_candidates c) (simp add: row_mapping_def example_row_simps m)
qed

lemma wide_cmd_str:
  "cmd_str 0 PUT 100 12 0 ''B000000005'' = ''00000100120B000000005''"
  by (simp add: cmd_str_def id4_def d2_def py_str_int_def str_nat.simps digit_char_def)

theorem cmd_str_encoding_witness:
  "cmd_str 7 PICK 3 12 0 ''B000000005'' = ''0007103120B000000005''
   \<and> cmd_str 10007 PICK 3 12 0 ''B000000005'' = ''0007103120B000000005''
   \<and> 20 < length (cmd_str 0 PUT 100 12 0 ''B000000005'')
   \<and> fst (loop_iteration example_device no_faults 0 (example_world example_wide_db)) = 0
   \<and> w_log (snd (loop_iteration example_device no_faults 0 (example_world example_wide_db))) = []
   \<and> \<not> w_send_lock
         (snd (loop_iteration example_device no_faults 0 (example_world example_wide_db)))"
proof -
  have s: "fst (select_next no_faults (w_db (example_world example_wide_db)) 20)
      = Some (PUT, example_row 1 ''B000000005'' 5, (1, 100, 12, 0))"
    by (simp add: example_world_def wide_select)
  have l: "length (cmd_str 0 PUT 100 12 0 (basket_text (example_row 1 ''B000000005'' 5))) \<noteq> 20"
    by (simp add: basket_text_def example_row_simps wide_cmd_str)
  have r: "replicate 3 CHR ''0'' = ''000''"
    by (simp add: numeral_eq_Suc)
  have p: "zero_pad 4 (str_nat 7) = ''0007''" "zero_pad 2 (str_nat 3) = ''03''"
    "zero_pad 2 (str_nat 12) = ''12''" "str_nat 0 = ''0''"
    by (simp_all add: zero_pad_def str_nat.simps digit_char_def r)
  from cmd_str_encoding [of 7 3 12 0 PICK "''B000000005''"]
  have a: "cmd_str 7 PICK 3 12 0 ''B000000005'' = ''0007103120B000000005''"
    by (simp add: p)
  from cmd_str_encoding [of 10007 3 12 0 PICK "''B000000005''"]
  have a': "cmd_str 10007 PICK 3 12 0 ''B000000005'' = ''0007103120B000000005''"
    by (simp add: p)
  from cmd_str_encoding [of 0 100 12 0 PUT "''B000000005''" no_faults
      "example_world example_wide_db" "example_row 1 ''B000000005'' 5" 1 example_device] s l
  have b: "20 < length (cmd_str 0 PUT 100 12 0 ''B000000005'')
     \<and> fst (loop_iteration example_device no_faults 0 (example_world example_wide_db)) = 0
     \<and> w_log (snd (loop_iteration example_device no_faults 0 (example_world example_wide_db)))
        = w_log (example_world example_wide_db)
     \<and> w_send_lock
         (snd (loop_iteration example_device no_faults 0 (example_world example_wide_db)))
        = w_send_lock (example_world example_wide_db)"
    by simp
  from a a' b show ?thesis
    by (simp add: example_world_def)
qed

text \<open>
  The string the claim gives for the example, \<open>000703120B000000005\<close>, has 19 characters
  (the method digit is missing) and is not what the code builds. And the id field is
  not the zero-padded sequence id for every id: sequence 10007, zero-padded to four
  digits, is \<open>10007\<close>, and the code encodes it as \<open>0007\<close>, in the very string of
  sequence 7.
\<close>

theorem cmd_str_example_counterexample:
  "cmd_str 7 PUT 3 12 0 ''B000000005'' \<noteq> ''000703120B000000005''
   \<and> length ''000703120B000000005'' = 19
   \<and> zero_pad 4 (str_nat 10007) = ''10007''
   \<and> cmd_str 10007 PUT 3 12 0 ''B000000005'' = ''0007003120B000000005''
   \<and> cmd_str 10007 PUT 3 12 0 ''B000000005'' = cmd_str 7 PUT 3 12 0 ''B000000005''"
  by (simp add: cmd_str_example cmd_str_wrapped_example)
    (simp add: zero_pad_def str_nat.simps digit_char_def)

section \<open>Properties: the clear-request reactor\<close>

lemma log_clear_cmd_exact: "w_log (clear_cmd_exact dev w) = w_log w @ clear_writes"
  by (simp add: clear_cmd_exact_def set_value_def sleep_def clear_writes_def Let_def)

lemma keeps_clear_cmd_exact:
  "w_send_lock (clear_cmd_exact dev w) = w_send_lock w"
  "w_pending_clear (clear_cmd_exact dev w) = w_pending_clear w"
  "w_db (clear_cmd_exact dev w) = w_db w"
  by (simp_all add: clear_cmd_exact_def set_value_def sleep_def Let_def)

lemma log_pulse: "w_log (snd (pulse dev n width w)) = w_log w @ [Write n (VBool True), Write n (VBool False)]"
  by (simp add: pulse_def set_value_def sleep_def Let_def case_prod_beta)

lemma keeps_pulse:
  "w_send_lock (snd (pulse dev n width w)) = w_send_lock w"
  "w_pending_clear (snd (pulse dev n width w)) = w_pending_clear w"
  "w_db (snd (pulse dev n width w)) = w_db w"
  by (simp_all add: pulse_def set_value_def sleep_def Let_def case_prod_beta)

lemma monitor_requested_held:
  assumes "w_clear_nodes w" and "dev_read dev (w_tick w) N_plc_req_clear = Some True"
    and "w_send_lock w"
  shows "w_log (monitor_clear_request dev w) = w_log w @ reply_pulse @ [TryAcquire False]"
    and "w_pending_clear (monitor_clear_request dev w)"
    and "w_send_lock (monitor_clear_request dev w)"
  using assms
  by (simp_all add: monitor_clear_request_def Let_def case_prod_beta get_value_def
      try_acquire_def emit_def sleep_def log_pulse keeps_pulse reply_pulse_def)

lemma monitor_requested_free:
  assumes "w_clear_nodes w" and "dev_read dev (w_tick w) N_plc_req_clear = Some True"
    and "\<not> w_send_lock w"
  shows "w_log (monitor_clear_request dev w)
           = w_log w @ reply_pulse @ [TryAcquire True] @ clear_writes @ [Release]"
    and "\<not> w_pending_clear (monitor_clear_request dev w)"
    and "\<not> w_send_lock (monitor_clear_request dev w)"
  using assms
  by (simp_all add: monitor_clear_request_def Let_def case_prod_beta get_value_def
      try_acquire_def release_def emit_def sleep_def log_pulse keeps_pulse
      log_clear_cmd_exact keeps_clear_cmd_exact reply_pulse_def)

lemma monitor_pending_free:
  assumes "w_clear_nodes w" and "dev_read dev (w_tick w) N_plc_req_clear \<noteq> Some True"
    and "w_pending_clear w" and "\<not> w_send_lock w"
  shows "w_log (monitor_clear_request dev w) = w_log w @ [TryAcquire True] @ clear_writes @ [Release]"
    and "\<not> w_pending_clear (monitor_clear_request dev w)"
    and "\<not> w_send_lock (monitor_clear_request dev w)"
  using assms
  by (simp_all add: monitor_clear_request_def Let_def case_prod_beta get_value_def
      try_acquire_def release_def emit_def sleep_def log_clear_cmd_exact keeps_clear_cmd_exact)

lemma monitor_pending_held:
  assumes "w_clear_nodes w" and "dev_read dev (w_tick w) N_plc_req_clear \<noteq> Some True"
    and "w_pending_clear w" and "w_send_lock w"
  shows "w_log (monitor_clear_request dev w) = w_log w @ [TryAcquire False]"
    and "w_pending_clear (monitor_clear_request dev w)"
    and "w_send_lock (monitor_clear_request dev w)"
  using assms
  by (simp_all add: monitor_clear_request_def Let_def case_prod_beta get_value_def
      try_acquire_def emit_def sleep_def)

lemma monitor_idle:
  assumes "w_clear_nodes w" and "dev_read dev (w_tick w) N_plc_req_clear \<noteq> Some True"
    and "\<not> w_pending_clear w"
  shows "w_log (monitor_clear_request dev w) = w_log w"
    and "\<not> w_pending_clear (monitor_clear_request dev w)"
    and "w_send_lock (monitor_clear_request dev w) = w_send_lock w"
  using assms
  by (simp_all add: monitor_clear_request_def Let_def case_prod_beta get_value_def sleep_def)

lemma monitor_unconfigured:
  assumes "\<not> w_clear_nodes w"
  shows "monitor_clear_request dev w = sleep 250 w"
  using assms by (simp add: monitor_clear_request_def)

lemma checks:
  "writes_under_lock False (reply_pulse @ [TryAcquire False])"
  "writes_under_lock False (reply_pulse @ [TryAcquire True] @ clear_writes @ [Release])"
  "writes_under_lock False ([TryAcquire True] @ clear_writes @ [Release])"
  "Acquire \<notin> set (reply_pulse @ [TryAcquire True] @ clear_writes @ [Release])"
  by (simp_all add: reply_pulse_def clear_writes_def command_register_def)


text \<open>The lock as the poll finds and leaves it around the clearing writes.\<close>

lemma keeps_get_value:
  "w_send_lock (snd (get_value dev n w)) = w_send_lock w"
  "w_pending_clear (snd (get_value dev n w)) = w_pending_clear w"
  by (simp_all add: get_value_def)

lemma lock_after_read: "w_send_lock (after_read dev w) = w_send_lock w"
  by (simp add: after_read_def keeps_get_value)

lemma lock_after_reply: "w_send_lock (after_reply dev w) = w_send_lock w"
  by (simp add: after_reply_def keeps_pulse lock_after_read)

lemma try_acquire_free:
  "\<not> w_send_lock u \<Longrightarrow> fst (try_acquire u) \<and> w_send_lock (snd (try_acquire u))"
  by (simp add: try_acquire_def emit_def)

lemma try_acquire_held:
  "w_send_lock u \<Longrightarrow> \<not> fst (try_acquire u) \<and> w_send_lock (snd (try_acquire u))"
  by (simp add: try_acquire_def emit_def)

lemma monitor_requested_world:
  assumes "w_clear_nodes w" and "dev_read dev (w_tick w) N_plc_req_clear = Some True"
  shows "monitor_clear_request dev w =
           sleep 150
             (if fst (try_acquire (after_reply dev w))
              then release ((clear_cmd_exact dev (snd (try_acquire (after_reply dev w))))
                              \<lparr>w_pending_clear := False\<rparr>)
              else (snd (try_acquire (after_reply dev w)))\<lparr>w_pending_clear := True\<rparr>)"
proof -
  have r: "fst (get_value dev N_plc_req_clear w) = Some True"
    using assms(2) by (simp add: get_value_def)
  show ?thesis
    unfolding monitor_clear_request_def after_reply_def after_read_def Let_def case_prod_beta
    using assms(1) r by simp
qed

lemma monitor_pending_world:
  assumes "w_clear_nodes w" and "dev_read dev (w_tick w) N_plc_req_clear \<noteq> Some True"
    and "w_pending_clear w"
  shows "monitor_clear_request dev w =
           sleep 150
             (if fst (try_acquire (after_read dev w))
              then release ((clear_cmd_exact dev (snd (try_acquire (after_read dev w))))
                              \<lparr>w_pending_clear := False\<rparr>)
              else snd (try_acquire (after_read dev w)))"
proof -
  have r: "fst (get_value dev N_plc_req_clear w) \<noteq> Some True"
    using assms(2) by (simp add: get_value_def)
  have p: "w_pending_clear (snd (get_value dev N_plc_req_clear w))"
    using assms(3) by (simp add: keeps_get_value)
  show ?thesis
    unfolding monitor_clear_request_def after_read_def Let_def case_prod_beta
    using assms(1) r p by simp
qed

lemma monitor_keeps_config:
  "w_clear_nodes (monitor_clear_request dev w) = w_clear_nodes w"
  by (simp add: monitor_clear_request_def Let_def case_prod_beta get_value_def
      try_acquire_def release_def emit_def sleep_def pulse_def set_value_def clear_cmd_exact_def)

text \<open>
  Claim C2. One poll of the reactor, the request and reply nodes being configured, on a
  world in which \<open>w_send_lock\<close> says whether another context (a command cycle) holds
  the lock. If the request line reads true, the first thing the poll does is the pulse
  on the reply line, whatever the lock; then it tries the lock without blocking: with the
  lock held it writes nothing more and sets the pending flag, with the lock free it
  makes the four clearing writes, drops the pending flag and releases. If the request
  line does not read true and the pending flag is set, a free lock gives the same
  clearing and drops the flag, a held lock leaves the flag set. In every case there is
  no blocking acquire, every write to a command register lies between a successful
  try-acquire and the release, and the lock is left as it was found.
  The lock itself, in the worlds of the poll: with the lock held the try-acquire fails,
  and the poll ends in the world the failed try left, the flag set. With the lock free
  the try-acquire succeeds and the lock is held in the world it leaves; the clearing
  writes are those of \<open>clear_cmd_exact\<close> run in that very world, the lock is still held
  when they are done, and only then is it released.
\<close>

theorem monitor_clear_request_spec:
  assumes "w_clear_nodes w" and "w' = monitor_clear_request dev w"
  shows "(dev_read dev (w_tick w) N_plc_req_clear = Some True \<longrightarrow>
            take 2 (new_events w w') = reply_pulse
          \<and> (w_send_lock w \<longrightarrow>
                new_events w w' = reply_pulse @ [TryAcquire False] \<and> w_pending_clear w')
          \<and> (\<not> w_send_lock w \<longrightarrow>
                new_events w w' = reply_pulse @ [TryAcquire True] @ clear_writes @ [Release]
                \<and> \<not> w_pending_clear w'))
       \<and> (dev_read dev (w_tick w) N_plc_req_clear \<noteq> Some True \<and> w_pending_clear w
            \<and> \<not> w_send_lock w \<longrightarrow>
            new_events w w' = [TryAcquire True] @ clear_writes @ [Release]
            \<and> \<not> w_pending_clear w')
       \<and> (dev_read dev (w_tick w) N_plc_req_clear \<noteq> Some True \<and> w_pending_clear w
            \<and> w_send_lock w \<longrightarrow>
            new_events w w' = [TryAcquire False] \<and> w_pending_clear w')
       \<and> w_log w' = w_log w @ new_events w w'
       \<and> Acquire \<notin> set (new_events w w')
       \<and> writes_under_lock False (new_events w w')
       \<and> w_send_lock w' = w_send_lock w
       \<and> (dev_read dev (w_tick w) N_plc_req_clear = Some True \<and> w_send_lock w \<longrightarrow>
            \<not> fst (try_acquire (after_reply dev w))
            \<and> w' = sleep 150 ((snd (try_acquire (after_reply dev w)))\<lparr>w_pending_clear := True\<rparr>))
       \<and> (dev_read dev (w_tick w) N_plc_req_clear = Some True \<and> \<not> w_send_lock w \<longrightarrow>
            fst (try_acquire (after_reply dev w))
            \<and> w_send_lock (snd (try_acquire (after_reply dev w)))
            \<and> w_send_lock (clear_cmd_exact dev (snd (try_acquire (after_reply dev w))))
            \<and> w' = sleep 150
                 (release ((clear_cmd_exact dev (snd (try_acquire (after_reply dev w))))
                             \<lparr>w_pending_clear := False\<rparr>)))
       \<and> (dev_read dev (w_tick w) N_plc_req_clear \<noteq> Some True \<and> w_pending_clear w
            \<and> w_send_lock w \<longrightarrow>
            \<not> fst (try_acquire (after_read dev w))
            \<and> w' = sleep 150 (snd (try_acquire (after_read dev w))))
       \<and> (dev_read dev (w_tick w) N_plc_req_clear \<noteq> Some True \<and> w_pending_clear w
            \<and> \<not> w_send_lock w \<longrightarrow>
            fst (try_acquire (after_read dev w))
            \<and> w_send_lock (snd (try_acquire (after_read dev w)))
            \<and> w_send_lock (clear_cmd_exact dev (snd (try_acquire (after_read dev w))))
            \<and> w' = sleep 150
                 (release ((clear_cmd_exact dev (snd (try_acquire (after_read dev w))))
                             \<lparr>w_pending_clear := False\<rparr>)))"
proof -
  have tf: "\<not> w_send_lock w \<Longrightarrow>
      fst (try_acquire (after_reply dev w)) \<and> w_send_lock (snd (try_acquire (after_reply dev w)))
      \<and> w_send_lock (clear_cmd_exact dev (snd (try_acquire (after_reply dev w))))
      \<and> fst (try_acquire (after_read dev w)) \<and> w_send_lock (snd (try_acquire (after_read dev w)))
      \<and> w_send_lock (clear_cmd_exact dev (snd (try_acquire (after_read dev w))))"
    using try_acquire_free [of "after_reply dev w"] try_acquire_free [of "after_read dev w"]
    by (simp add: lock_after_reply lock_after_read keeps_clear_cmd_exact)
  have th: "w_send_lock w \<Longrightarrow>
      \<not> fst (try_acquire (after_reply dev w)) \<and> \<not> fst (try_acquire (after_read dev w))"
    using try_acquire_held [of "after_reply dev w"] try_acquire_held [of "after_read dev w"]
    by (simp add: lock_after_reply lock_after_read)
  consider
      (rh) "dev_read dev (w_tick w) N_plc_req_clear = Some True" "w_send_lock w"
    | (rf) "dev_read dev (w_tick w) N_plc_req_clear = Some True" "\<not> w_send_lock w"
    | (pf) "dev_read dev (w_tick w) N_plc_req_clear \<noteq> Some True" "w_pending_clear w"
           "\<not> w_send_lock w"
    | (ph) "dev_read dev (w_tick w) N_plc_req_clear \<noteq> Some True" "w_pending_clear w"
           "w_send_lock w"
    | (idle) "dev_read dev (w_tick w) N_plc_req_clear \<noteq> Some True" "\<not> w_pending_clear w"
    by blast
  then show ?thesis
  proof cases
    case rh
    from monitor_requested_held [OF assms(1) rh] rh
      monitor_requested_world [OF assms(1) rh(1)] th [OF rh(2)]
    show ?thesis
      unfolding assms(2) new_events_def
      by (simp add: reply_pulse_def command_register_def)
  next
    case rf
    from monitor_requested_free [OF assms(1) rf] rf
      monitor_requested_world [OF assms(1) rf(1)] tf [OF rf(2)]
    show ?thesis
      unfolding assms(2) new_events_def
      by (simp add: reply_pulse_def clear_writes_def command_register_def)
  next
    case pf
    from monitor_pending_free [OF assms(1) pf] pf
      monitor_pending_world [OF assms(1) pf(1,2)] tf [OF pf(3)]
    show ?thesis
      unfolding assms(2) new_events_def
      by (simp add: clear_writes_def command_register_def)
  next
    case ph
    from monitor_pending_held [OF assms(1) ph] ph
      monitor_pending_world [OF assms(1) ph(1,2)] th [OF ph(3)]
    show ?thesis
      unfolding assms(2) new_events_def
      by simp
  next
    case idle
    from monitor_idle [OF assms(1) idle] idle show ?thesis
      unfolding assms(2) new_events_def
      by simp
  qed
qed

theorem monitor_clear_request_spec_witness:
  "new_events ((example_world example_db)\<lparr>w_send_lock := True\<rparr>)
      (monitor_clear_request example_device ((example_world example_db)\<lparr>w_send_lock := True\<rparr>))
     = reply_pulse @ [TryAcquire False]
   \<and> w_pending_clear
       (monitor_clear_request example_device ((example_world example_db)\<lparr>w_send_lock := True\<rparr>))
   \<and> new_events
       ((monitor_clear_request example_device
           ((example_world example_db)\<lparr>w_send_lock := True\<rparr>))\<lparr>w_send_lock := False\<rparr>)
       (monitor_clear_request quiet_device
         ((monitor_clear_request example_device
            ((example_world example_db)\<lparr>w_send_lock := True\<rparr>))\<lparr>w_send_lock := False\<rparr>))
     = [TryAcquire True] @ clear_writes @ [Release]
   \<and> \<not> w_pending_clear
       (monitor_clear_request quiet_device
         ((monitor_clear_request example_device
            ((example_world example_db)\<lparr>w_send_lock := True\<rparr>))\<lparr>w_send_lock := False\<rparr>))
   \<and> w_send_lock
       (snd (try_acquire
         (after_read quiet_device
           ((monitor_clear_request example_device
              ((example_world example_db)\<lparr>w_send_lock := True\<rparr>))\<lparr>w_send_lock := False\<rparr>))))"
proof -
  let ?w0 = "(example_world example_db)\<lparr>w_send_lock := True\<rparr>"
  let ?w1 = "(monitor_clear_request example_device ?w0)\<lparr>w_send_lock := False\<rparr>"
  have c0: "w_clear_nodes ?w0" and l0: "w_send_lock ?w0"
    and r0: "dev_read example_device (w_tick ?w0) N_plc_req_clear = Some True"
    by (simp_all add: example_world_def example_device_def)
  from monitor_clear_request_spec [OF c0 refl, of example_device] r0 l0
  have first: "new_events ?w0 (monitor_clear_request example_device ?w0)
        = reply_pulse @ [TryAcquire False]
      \<and> w_pending_clear (monitor_clear_request example_device ?w0)"
    by blast
  have c1: "w_clear_nodes ?w1"
    using c0 by (simp add: monitor_keeps_config)
  have p1: "w_pending_clear ?w1" and l1: "\<not> w_send_lock ?w1"
    using first by simp_all
  have r1: "dev_read quiet_device (w_tick ?w1) N_plc_req_clear \<noteq> Some True"
    by (simp add: quiet_device_def)
  from monitor_clear_request_spec [OF c1 refl, of quiet_device] r1 p1 l1
  have "new_events ?w1 (monitor_clear_request quiet_device ?w1)
        = [TryAcquire True] @ clear_writes @ [Release]
      \<and> \<not> w_pending_clear (monitor_clear_request quiet_device ?w1)
      \<and> w_send_lock (snd (try_acquire (after_read quiet_device ?w1)))"
    by blast
  with first show ?thesis
    by blast
qed

section \<open>Properties: the command cycle\<close>

lemma ack_timeout_until_ack:
  "until_ack ack_timeout_device ''0000003120B000000005'' (acquire (example_world example_put_db))
     = (Inl DeviceWriteError,
        (example_world example_put_db)
          \<lparr>w_tick := 9, w_clock := 5020, w_send_lock := True,
           w_log := [Acquire, Write N_cmd (VStr ''0000003120B000000005''),
                     Write N_send (VBool True), Write N_send (VBool False)]\<rparr>)"
  by (simp add: until_ack_def system_ready_def get_value_def set_value_def wait_def
      wait_loop.simps sleep_def acquire_def emit_def example_world_def ack_timeout_device_def
      Let_def numeral_3_eq_3)

lemma strobe_fail_until_ack:
  "until_ack strobe_fail_device ''0000003120B000000005'' (acquire (example_world example_put_db))
     = (Inr True,
        (example_world example_put_db)
          \<lparr>w_tick := 8, w_send_lock := True,
           w_log := [Acquire, Write N_cmd (VStr ''0000003120B000000005''),
                     Write N_send (VBool True)]\<rparr>)"
  by (simp add: until_ack_def system_ready_def get_value_def set_value_def wait_def
      wait_loop.simps sleep_def acquire_def emit_def example_world_def strobe_fail_device_def
      Let_def numeral_3_eq_3)

text \<open>
  Claim C7: the run on which the claim fails. The system is ready and the previous state
  is clear, the command is written and the strobe raised, the ack line stays false for
  the five seconds of the wait, and the write that drops the strobe fails. That write is
  outside any \<open>try\<close>: the call does not return a boolean, the exception leaves it (the
  lock is released by the \<open>with\<close> statement on the way out).
\<close>

theorem send_job_blocking_ack_timeout_raises:
  "fst (send_job_blocking ack_timeout_device ''0000003120B000000005'' PUT
          (example_row 1 ''B000000005'' 5) 1 (example_world example_put_db))
     = Inl DeviceWriteError
   \<and> w_log (snd (send_job_blocking ack_timeout_device ''0000003120B000000005'' PUT
          (example_row 1 ''B000000005'' 5) 1 (example_world example_put_db)))
     = [Acquire, Write N_cmd (VStr ''0000003120B000000005''), Write N_send (VBool True),
        Write N_send (VBool False), Release]"
  by (simp add: send_job_blocking_def ack_timeout_until_ack release_def emit_def)

lemma strobe_fail_after_ack:
  "after_ack strobe_fail_device PUT (example_row 1 ''B000000005'' 5) 1 0
     ((example_world example_put_db)
        \<lparr>w_tick := 8, w_send_lock := True,
         w_log := [Acquire, Write N_cmd (VStr ''0000003120B000000005''),
                   Write N_send (VBool True)]\<rparr>)
   = (Inl DeviceWriteError,
      (example_world (example_put_db\<lparr>queue_put := []\<rparr>))
        \<lparr>w_tick := 9, w_send_lock := True,
         w_log := [Acquire, Write N_cmd (VStr ''0000003120B000000005''),
                   Write N_send (VBool True), DbDeleteQueueRow PUT 1,
                   Write N_send (VBool False)]\<rparr>)"
  by (simp add: after_ack_def set_value_def emit_def delete_queue_row_def
      strobe_fail_device_def example_world_def example_put_db_def example_row_def Let_def)

lemma example_world_clock: "w_clock (example_world d) = 0"
  by (simp add: example_world_def)

text \<open>
  Claim C1: the run on which the claim fails. The ack line goes true within the wait and
  the queue row is deleted; the write that drops the strobe, outside any \<open>try\<close>, fails.
  The exception leaves the call before the occupancy update: the row is gone from the
  queue, the shelf is as it was, no boolean is returned and nothing is published.
\<close>

theorem send_job_blocking_strobe_drop_raises:
  "send_job_blocking strobe_fail_device ''0000003120B000000005'' PUT
          (example_row 1 ''B000000005'' 5) 1 (example_world example_put_db)
     = (Inl DeviceWriteError,
        (example_world (example_put_db\<lparr>queue_put := []\<rparr>))
          \<lparr>w_tick := 9,
           w_log := [Acquire, Write N_cmd (VStr ''0000003120B000000005''),
                     Write N_send (VBool True), DbDeleteQueueRow PUT 1,
                     Write N_send (VBool False), Release]\<rparr>)
   \<and> shelf_data (example_put_db\<lparr>queue_put := []\<rparr>) = [example_shelf 1 None]
   \<and> w_published (example_world (example_put_db\<lparr>queue_put := []\<rparr>)) = []"
proof -
  have "send_job_blocking strobe_fail_device ''0000003120B000000005'' PUT
          (example_row 1 ''B000000005'' 5) 1 (example_world example_put_db)
     = (Inl DeviceWriteError,
        (example_world (example_put_db\<lparr>queue_put := []\<rparr>))
          \<lparr>w_tick := 9,
           w_log := [Acquire, Write N_cmd (VStr ''0000003120B000000005''),
                     Write N_send (VBool True), DbDeleteQueueRow PUT 1,
                     Write N_send (VBool False), Release]\<rparr>)"
    by (simp add: send_job_blocking_def strobe_fail_until_ack example_world_clock
        strobe_fail_after_ack release_def emit_def)
      (simp add: example_world_def)
  then show ?thesis
    by (simp add: example_put_db_def example_world_def)
qed

text \<open>The refusal of a cycle when the system is not ready: nothing is written.\<close>

lemma send_job_blocking_refuses:
  assumes "\<not> fst (system_ready dev (acquire w))"
  shows "send_job_blocking dev cmd m row sid w
           = (Inr False, release (snd (system_ready dev (acquire w))))"
    and "w_log (snd (send_job_blocking dev cmd m row sid w)) = w_log w @ [Acquire, Release]"
    and "w_db (snd (send_job_blocking dev cmd m row sid w)) = w_db w"
proof -
  show r: "send_job_blocking dev cmd m row sid w
           = (Inr False, release (snd (system_ready dev (acquire w))))"
    using assms by (simp add: send_job_blocking_def until_ack_def Let_def case_prod_beta)
  have "w_log (snd (system_ready dev (acquire w))) = w_log w @ [Acquire]"
    "w_db (snd (system_ready dev (acquire w))) = w_db w"
    by (simp_all add: system_ready_def get_value_def acquire_def emit_def
        split: prod.splits option.splits)
  then show "w_log (snd (send_job_blocking dev cmd m row sid w)) = w_log w @ [Acquire, Release]"
    and "w_db (snd (send_job_blocking dev cmd m row sid w)) = w_db w"
    by (simp_all add: r release_def emit_def)
qed

lemma device_only_refl: "device_only w w"
  by (simp add: device_only_def)

lemma device_only_trans [trans]:
  "device_only w w1 \<Longrightarrow> device_only w1 w2 \<Longrightarrow> device_only w w2"
  by (auto simp: device_only_def)

lemma device_only_get_value: "device_only w (snd (get_value dev n w))"
  by (simp add: device_only_def get_value_def)

lemma device_only_set_value: "device_only w (snd (set_value dev n v w))"
  by (simp add: device_only_def set_value_def)

lemma device_only_sleep: "device_only w (sleep ms w)"
  by (simp add: device_only_def sleep_def)

lemma device_only_pulse: "device_only w (snd (pulse dev n width w))"
proof -
  let ?w1 = "snd (set_value dev n (VBool True) w)"
  let ?w2 = "if fst (set_value dev n (VBool True) w) then sleep width ?w1 else ?w1"
  have "device_only w ?w1" by (rule device_only_set_value)
  moreover have "device_only ?w1 ?w2" by (simp add: device_only_sleep device_only_refl)
  moreover have "device_only ?w2 (snd (set_value dev n (VBool False) ?w2))"
    by (rule device_only_set_value)
  ultimately have "device_only w (snd (set_value dev n (VBool False) ?w2))"
    by (blast intro: device_only_trans)
  then show ?thesis
    by (simp add: pulse_def Let_def case_prod_beta)
qed

lemma device_only_wait_loop: "device_only w (snd (wait_loop dev n want deadline w))"
proof (induction dev n want deadline w rule: wait_loop.induct)
  case (1 dev n want deadline w)
  show ?case
  proof (cases "w_clock w < deadline")
    case False
    then show ?thesis by (subst wait_loop.simps) (simp add: device_only_refl)
  next
    case True
    show ?thesis
    proof (cases "fst (get_value dev n w) = Some want")
      case hit: True
      with True show ?thesis
        by (subst wait_loop.simps) (simp add: device_only_get_value)
    next
      case miss: False
      have "device_only w (sleep 20 (snd (get_value dev n w)))"
        by (blast intro: device_only_trans device_only_get_value device_only_sleep)
      moreover have "device_only (sleep 20 (snd (get_value dev n w)))
          (snd (wait_loop dev n want deadline (sleep 20 (snd (get_value dev n w)))))"
        using 1 True miss by simp
      ultimately show ?thesis
        using True miss by (subst wait_loop.simps) (auto intro: device_only_trans)
    qed
  qed
qed

lemma device_only_wait: "device_only w (snd (wait dev n want t w))"
  by (simp add: wait_def device_only_wait_loop)

lemma device_only_system_ready: "device_only w (snd (system_ready dev w))"
  by (simp add: device_only_def system_ready_def get_value_def split: prod.splits option.splits)

lemma device_only_clear_cmd_exact: "device_only w (clear_cmd_exact dev w)"
  by (simp add: device_only_def clear_cmd_exact_def set_value_def sleep_def Let_def)

lemma device_only_serve_qr: "device_only w (serve_qr_if_requested dev b t w)"
proof -
  define w0 where "w0 = (if t > 0 then snd (wait dev N_plc_req_qr True t w) else w)"
  define w1 where "w1 = snd (get_value dev N_plc_req_qr w0)"
  define w2 where "w2 = snd (set_value dev N_basket_qr (VStr b) w1)"
  define w3 where "w3 = snd (pulse dev N_wms_recv_qr 60 (sleep 20 w2))"
  define w4 where "w4 = snd (wait dev N_plc_req_qr False 2000 w3)"
  have a: "device_only w w0"
    by (simp add: w0_def device_only_wait device_only_refl)
  have b: "device_only w0 w1"
    unfolding w1_def by (rule device_only_get_value)
  have c: "device_only w1 w2"
    unfolding w2_def by (rule device_only_set_value)
  have d: "device_only w2 w3"
    unfolding w3_def by (blast intro: device_only_trans device_only_sleep device_only_pulse)
  have e: "device_only w3 w4"
    unfolding w4_def by (rule device_only_wait)
  have "serve_qr_if_requested dev b t w \<in> {w1, w2, w3, w4}"
    by (simp add: serve_qr_if_requested_def Let_def case_prod_beta w0_def w1_def w2_def
        w3_def w4_def)
  moreover have "device_only w w1" "device_only w w2" "device_only w w3" "device_only w w4"
    using a b c d e by (blast intro: device_only_trans)+
  ultimately show ?thesis
    by auto
qed

lemma device_only_qr_during_wait: "device_only w (qr_during_wait dev b w)"
proof -
  let ?w1 = "snd (get_value dev N_plc_req_qr w)"
  have a: "device_only w ?w1" by (rule device_only_get_value)
  have "device_only ?w1 (serve_qr_if_requested dev b 0 ?w1)" by (rule device_only_serve_qr)
  with a have "device_only w (serve_qr_if_requested dev b 0 ?w1)" by (rule device_only_trans)
  with a show ?thesis
    by (simp add: qr_during_wait_def case_prod_beta)
qed

lemma device_only_on_complete: "device_only w (on_complete dev w)"
proof -
  have "device_only w (sleep 1000 w)" by (rule device_only_sleep)
  also have "device_only (sleep 1000 w) (snd (pulse dev N_complete_rpy 100 (sleep 1000 w)))"
    by (rule device_only_pulse)
  also have "device_only (snd (pulse dev N_complete_rpy 100 (sleep 1000 w)))
      (sleep 500 (snd (pulse dev N_complete_rpy 100 (sleep 1000 w))))"
    by (rule device_only_sleep)
  also have "device_only (sleep 500 (snd (pulse dev N_complete_rpy 100 (sleep 1000 w))))
      (clear_cmd_exact dev (sleep 500 (snd (pulse dev N_complete_rpy 100 (sleep 1000 w)))))"
    by (rule device_only_clear_cmd_exact)
  finally show ?thesis
    by (simp add: on_complete_def)
qed

lemma device_only_complete_loop:
  "device_only w (snd (complete_loop dev b deadline flag w))"
proof (induction dev b deadline flag w rule: complete_loop.induct)
  case (1 dev b deadline flag w)
  let ?r = "fst (get_value dev N_complete w)"
  let ?w1 = "snd (get_value dev N_complete w)"
  let ?w2 = "snd (system_ready dev (qr_during_wait dev b ?w1))"
  have g: "device_only w ?w1" by (rule device_only_get_value)
  have s: "device_only w ?w2"
    by (blast intro: device_only_trans g device_only_qr_during_wait device_only_system_ready)
  show ?case
  proof (cases "w_clock w < deadline")
    case False
    then show ?thesis by (subst complete_loop.simps) (simp add: device_only_refl)
  next
    case True
    consider (err) "?r = None" | (fin) "?r = Some True" | (pend) "?r = Some False"
      by (cases ?r) auto
    then show ?thesis
    proof cases
      case err
      have "device_only w (sleep 100 ?w1)"
        by (blast intro: device_only_trans g device_only_sleep)
      moreover have "device_only (sleep 100 ?w1)
          (snd (complete_loop dev b deadline flag (sleep 100 ?w1)))"
        using 1(1) True err by simp
      ultimately show ?thesis
        using True err by (subst complete_loop.simps) (auto intro: device_only_trans)
    next
      case fin
      have "device_only w (on_complete dev ?w1)"
        by (blast intro: device_only_trans g device_only_on_complete)
      with True fin show ?thesis
        by (subst complete_loop.simps) simp
    next
      case pend
      show ?thesis
      proof (cases "fst (system_ready dev (qr_during_wait dev b ?w1))")
        case rdy: True
        have "device_only w (sleep 30 ?w2)"
          by (blast intro: device_only_trans s device_only_sleep)
        moreover have "device_only (sleep 30 ?w2)
            (snd (complete_loop dev b deadline flag (sleep 30 ?w2)))"
          using 1(2) True pend rdy by simp
        ultimately show ?thesis
          using True pend rdy by (subst complete_loop.simps) (auto intro: device_only_trans)
      next
        case nrdy: False
        have "device_only w (sleep 500 ?w2)"
          by (blast intro: device_only_trans s device_only_sleep)
        moreover have "device_only (sleep 500 ?w2)
            (snd (complete_loop dev b deadline True (sleep 500 ?w2)))"
          using 1(3) True pend nrdy by simp
        ultimately show ?thesis
          using True pend nrdy by (subst complete_loop.simps) (auto intro: device_only_trans)
      qed
    qed
  qed
qed

lemma device_only_cleanup: "device_only w (cleanup dev w)"
proof -
  define w1 where "w1 = snd (pulse dev N_complete_rpy 50 w)"
  define w2 where "w2 = clear_cmd_exact dev w1"
  define w3 where "w3 = snd (wait dev N_complete False 5000 w2)"
  define w4 where "w4 = sleep 150 w3"
  define w5 where "w5 = snd (pulse dev N_complete_rpy 50 w4)"
  define w6 where "w6 = snd (wait dev N_ack False 5000 w5)"
  have "device_only w w1" unfolding w1_def by (rule device_only_pulse)
  also have "device_only w1 w2" unfolding w2_def by (rule device_only_clear_cmd_exact)
  also have "device_only w2 w3" unfolding w3_def by (rule device_only_wait)
  also have "device_only w3 w4" unfolding w4_def by (rule device_only_sleep)
  also have "device_only w4 w5" unfolding w5_def by (rule device_only_pulse)
  also have "device_only w5 w6" unfolding w6_def by (rule device_only_wait)
  also have "device_only w6 (snd (wait dev N_ready True 3000 w6))" by (rule device_only_wait)
  finally show ?thesis
    by (simp add: cleanup_def Let_def w1_def w2_def w3_def w4_def w5_def w6_def)
qed


lemma db_update_log:
  "w_log (snd (db_update m sid b w))
     = w_log w @ [commit_event m sid b (fst (db_update m sid b w))]"
  by (simp add: db_update_def commit_event_def emit_def Let_def case_prod_beta)

lemma db_update_keeps:
  "w_published (snd (db_update m sid b w)) = w_published w"
  "w_on_cycle_done (snd (db_update m sid b w)) = w_on_cycle_done w"
  by (simp_all add: db_update_def emit_def Let_def case_prod_beta)

lemma db_update_store:
  "w_db (snd (db_update m sid b w)) =
     (if m = PUT then snd (move_put (w_db w) (w_clock w) sid b False)
      else snd (mark_pick (w_db w) (w_clock w) sid))"
  "fst (db_update m sid b w) =
     (if m = PUT then (\<exists>info. fst (move_put (w_db w) (w_clock w) sid b False) = Inr info)
      else True)"
  by (auto simp: db_update_def emit_def Let_def case_prod_beta mark_pick_def transaction_def
      split: sum.splits)

lemma strobe_dropped_log:
  "w_log (strobe_dropped dev m row w)
     = w_log w @ [DbDeleteQueueRow m (q_id row), Write N_send (VBool False)]"
  "w_db (strobe_dropped dev m row w) = delete_queue_row (w_db w) m (q_id row)"
  "w_published (strobe_dropped dev m row w) = w_published w"
  "w_on_cycle_done (strobe_dropped dev m row w) = w_on_cycle_done w"
  by (simp_all add: strobe_dropped_def set_value_def emit_def)

lemma record_cycle_keeps:
  "w_db (record_cycle m b t0 ok w) = w_db w"
  "w_log (record_cycle m b t0 ok w) = w_log w"
  "w_clock (record_cycle m b t0 ok w) = w_clock w"
  by (simp_all add: record_cycle_def Let_def)

lemma record_cycle_published:
  "w_on_cycle_done w \<Longrightarrow>
   w_published (record_cycle m b t0 ok w) =
     w_published w @ [\<lparr>c_kind = m, c_basket = b, c_seconds = w_clock w - t0, c_success = ok\<rparr>]"
  by (simp add: record_cycle_def Let_def)

text \<open>
  What the cycle does from the acknowledgement on, when the write that drops the strobe
  goes through: whatever the device does afterwards, completion timeout included, the
  call returns the outcome of the occupancy update, the store is the one that update
  left (made on the store from which the queue row was deleted), the first three events
  are the deletion, the strobe drop and the update, no store statement follows them,
  and the cycle published carries that same outcome.
\<close>

lemma after_ack_commits:
  assumes "dev_write_ok dev (w_tick w) N_send"
  shows "fst (after_ack dev m row sid t0 w)
           = Inr (fst (db_update m sid (strip (basket_or_empty row)) (strobe_dropped dev m row w)))"
    and "w_db (snd (after_ack dev m row sid t0 w))
           = w_db (snd (db_update m sid (strip (basket_or_empty row)) (strobe_dropped dev m row w)))"
    and "\<exists>es. new_events w (snd (after_ack dev m row sid t0 w))
           = [DbDeleteQueueRow m (q_id row), Write N_send (VBool False),
              commit_event m sid (strip (basket_or_empty row))
                (fst (db_update m sid (strip (basket_or_empty row)) (strobe_dropped dev m row w)))]
             @ es
           \<and> list_all (\<lambda>e. \<not> is_db_event e) es"
    and "w_on_cycle_done w \<Longrightarrow>
         w_published (snd (after_ack dev m row sid t0 w))
           = w_published w @
             [\<lparr>c_kind = m, c_basket = strip (basket_or_empty row),
               c_seconds = w_clock (snd (after_ack dev m row sid t0 w)) - t0,
               c_success = fst (db_update m sid (strip (basket_or_empty row))
                                  (strobe_dropped dev m row w))\<rparr>]"
proof -
  let ?b = "strip (basket_or_empty row)"
  let ?w2 = "strobe_dropped dev m row w"
  let ?ok = "fst (db_update m sid ?b ?w2)"
  let ?w3 = "snd (db_update m sid ?b ?w2)"
  define w4 where "w4 = serve_qr_if_requested dev ?b 500 ?w3"
  define w5 where "w5 = snd (complete_loop dev ?b (w_clock w4 + 120000) False w4)"
  define w6 where "w6 = cleanup dev w5"
  have wr: "fst (set_value dev N_send (VBool False)
              (emit (DbDeleteQueueRow m (q_id row))
                 (w\<lparr>w_db := delete_queue_row (w_db w) m (q_id row)\<rparr>)))"
    using assms by (simp add: set_value_def emit_def)
  have res: "after_ack dev m row sid t0 w = (Inr ?ok, record_cycle m ?b t0 ?ok w6)"
    using wr
    by (simp add: after_ack_def Let_def case_prod_beta strobe_dropped_def w4_def w5_def w6_def)
  have "device_only ?w3 w4" unfolding w4_def by (rule device_only_serve_qr)
  also have "device_only w4 w5" unfolding w5_def by (rule device_only_complete_loop)
  also have "device_only w5 w6" unfolding w6_def by (rule device_only_cleanup)
  finally have d: "device_only ?w3 w6" .
  then obtain es where es: "w_log w6 = w_log ?w3 @ es" "list_all (\<lambda>e. \<not> is_db_event e) es"
    by (auto simp: device_only_def)
  show "fst (after_ack dev m row sid t0 w) = Inr ?ok"
    by (simp add: res)
  show "w_db (snd (after_ack dev m row sid t0 w)) = w_db ?w3"
    using d by (simp add: res record_cycle_keeps device_only_def)
  have "new_events w (snd (after_ack dev m row sid t0 w))
      = [DbDeleteQueueRow m (q_id row), Write N_send (VBool False), commit_event m sid ?b ?ok] @ es"
    by (simp add: res record_cycle_keeps es db_update_log strobe_dropped_log new_events_def)
  with es(2) show "\<exists>es. new_events w (snd (after_ack dev m row sid t0 w))
           = [DbDeleteQueueRow m (q_id row), Write N_send (VBool False),
              commit_event m sid ?b ?ok] @ es
           \<and> list_all (\<lambda>e. \<not> is_db_event e) es"
    by blast
  assume cb: "w_on_cycle_done w"
  have "w_on_cycle_done w6" "w_published w6 = w_published w"
    using d cb by (simp_all add: device_only_def db_update_keeps strobe_dropped_log)
  then show "w_published (snd (after_ack dev m row sid t0 w))
           = w_published w @
             [\<lparr>c_kind = m, c_basket = ?b,
               c_seconds = w_clock (snd (after_ack dev m row sid t0 w)) - t0,
               c_success = ?ok\<rparr>]"
    by (simp add: res record_cycle_published record_cycle_keeps)
qed

text \<open>An exception leaves \<open>send_job_blocking\<close> only through one of the two strobe drops.\<close>

lemma until_ack_raises:
  assumes "fst (until_ack dev cmd w) = Inl e"
  shows "e = DeviceWriteError"
  using assms
  by (auto simp: until_ack_def Let_def case_prod_beta split: if_splits)

lemma after_ack_raises:
  assumes "fst (after_ack dev m row sid t0 w) = Inl e"
  shows "e = DeviceWriteError \<and> \<not> dev_write_ok dev (w_tick w) N_send"
  using assms
  by (auto simp: after_ack_def Let_def case_prod_beta set_value_def emit_def split: if_splits)

text \<open>
  From the acknowledgement on, with the strobe drop going through and a completion
  callback installed: the value returned and the \<open>success\<close> published are the outcome of
  the occupancy update; the store at the end is the store that update left; the log
  continues with the deletion of the queue row, the strobe drop and the update, and
  holds no store statement after them.
\<close>

theorem after_ack_commits_spec:
  assumes "dev_write_ok dev (w_tick w) N_send" and "w_on_cycle_done w"
  shows "fst (after_ack dev m row sid t0 w)
           = Inr (fst (db_update m sid (strip (basket_or_empty row)) (strobe_dropped dev m row w)))
       \<and> w_db (snd (after_ack dev m row sid t0 w))
           = w_db (snd (db_update m sid (strip (basket_or_empty row)) (strobe_dropped dev m row w)))
       \<and> w_db (strobe_dropped dev m row w) = delete_queue_row (w_db w) m (q_id row)
       \<and> (\<exists>es. new_events w (snd (after_ack dev m row sid t0 w))
             = [DbDeleteQueueRow m (q_id row), Write N_send (VBool False),
                commit_event m sid (strip (basket_or_empty row))
                  (fst (db_update m sid (strip (basket_or_empty row)) (strobe_dropped dev m row w)))]
               @ es
             \<and> list_all (\<lambda>e. \<not> is_db_event e) es)
       \<and> w_published (snd (after_ack dev m row sid t0 w))
           = w_published w @
             [\<lparr>c_kind = m, c_basket = strip (basket_or_empty row),
               c_seconds = w_clock (snd (after_ack dev m row sid t0 w)) - t0,
               c_success = fst (db_update m sid (strip (basket_or_empty row))
                                  (strobe_dropped dev m row w))\<rparr>]"
  using after_ack_commits [OF assms(1), of m row sid t0] assms(2)
  by (simp add: strobe_dropped_log)

theorem after_ack_commits_spec_witness:
  "fst (after_ack example_device PUT (example_row 1 ''B000000005'' 5) 1 0
          (example_world example_put_db))
     = Inr (fst (db_update PUT 1 (strip (basket_or_empty (example_row 1 ''B000000005'' 5)))
                  (strobe_dropped example_device PUT (example_row 1 ''B000000005'' 5)
                     (example_world example_put_db))))"
proof -
  have a: "dev_write_ok example_device (w_tick (example_world example_put_db)) N_send"
    by (simp add: example_device_def)
  have b: "w_on_cycle_done (example_world example_put_db)"
    by (simp add: example_world_def)
  from after_ack_commits_spec [OF a b] show ?thesis
    by simp
qed

text \<open>
  The refusal: when the device does not report ready, auto mode and no alarm (or a read
  of these raises), the call returns \<open>False\<close> at once; between taking and releasing the
  lock nothing is written, and the store is untouched.
\<close>

theorem send_job_blocking_refuses_spec:
  assumes "\<not> fst (system_ready dev (acquire w))"
  shows "fst (send_job_blocking dev cmd m row sid w) = Inr False
       \<and> w_log (snd (send_job_blocking dev cmd m row sid w)) = w_log w @ [Acquire, Release]
       \<and> w_db (snd (send_job_blocking dev cmd m row sid w)) = w_db w"
  using send_job_blocking_refuses [OF assms]
  by simp

theorem send_job_blocking_refuses_spec_witness:
  "fst (send_job_blocking quiet_device ''0000003120B000000005'' PUT
          (example_row 1 ''B000000005'' 5) 1 (example_world example_put_db)) = Inr False
   \<and> w_log (snd (send_job_blocking quiet_device ''0000003120B000000005'' PUT
          (example_row 1 ''B000000005'' 5) 1 (example_world example_put_db)))
       = [Acquire, Release]"
proof -
  have "\<not> fst (system_ready quiet_device (acquire (example_world example_put_db)))"
    by (simp add: system_ready_def get_value_def quiet_device_def)
  from send_job_blocking_refuses_spec [OF this] show ?thesis
    by (simp add: example_world_def)
qed

text \<open>
  The only exception that leaves \<open>send_job_blocking\<close> is the device error of a strobe
  drop; on every other path the call returns a boolean.
\<close>

theorem send_job_blocking_raises_only_device_error:
  assumes "fst (send_job_blocking dev cmd m row sid w) = Inl e"
  shows "e = DeviceWriteError"
proof (cases "fst (until_ack dev cmd (acquire w)) = Inr True")
  case True
  with assms have "fst (after_ack dev m row sid (w_clock w) (snd (until_ack dev cmd (acquire w))))
      = Inl e"
    by (simp add: send_job_blocking_def Let_def case_prod_beta)
  then show ?thesis
    by (simp add: after_ack_raises)
next
  case False
  with assms have "fst (until_ack dev cmd (acquire w)) = Inl e"
    by (simp add: send_job_blocking_def Let_def case_prod_beta)
  then show ?thesis
    by (rule until_ack_raises)
qed

theorem send_job_blocking_raises_only_device_error_witness:
  "fst (send_job_blocking ack_timeout_device ''0000003120B000000005'' PUT
          (example_row 1 ''B000000005'' 5) 1 (example_world example_put_db))
     = Inl DeviceWriteError"
proof -
  have "\<exists>e. fst (send_job_blocking ack_timeout_device ''0000003120B000000005'' PUT
          (example_row 1 ''B000000005'' 5) 1 (example_world example_put_db)) = Inl e"
    by (simp add: send_job_blocking_def ack_timeout_until_ack)
  then obtain e where e: "fst (send_job_blocking ack_timeout_device ''0000003120B000000005'' PUT
          (example_row 1 ''B000000005'' 5) 1 (example_world example_put_db)) = Inl e"
    by blast
  from send_job_blocking_raises_only_device_error [OF e] e show ?thesis
    by simp
qed

end
